theory Spec2Isabelle
  imports Main
begin

section \<open>Data model of \<^verbatim>\<open>dts-parse.js\<close>\<close>

text \<open>
  The transform works on the JSON tree TypeDoc produces and bolts extra, underscore-prefixed
  fields onto the very same objects. The model keeps that shape: one type of nodes that has
  the TypeDoc fields and, in \<open>ext\<close>, the optional fields the transform adds
  (\<^verbatim>\<open>_name\<close>, \<^verbatim>\<open>_pageHref\<close>, \<^verbatim>\<open>_pageId\<close>, \<^verbatim>\<open>_type\<close>, \<^verbatim>\<open>_method\<close>,
  \<^verbatim>\<open>_event\<close>, \<^verbatim>\<open>_feature\<close>, \<^verbatim>\<open>_enums\<close>). A field that JavaScript leaves
  \<^verbatim>\<open>undefined\<close> is \<open>None\<close>.

  Strings are lists of characters; the model is exact for ASCII text, where a JavaScript
  string index, a UTF-16 code unit and a \<open>char\<close> coincide.
\<close>

text \<open>
  Modelled from the spec: \<^verbatim>\<open>typedoc.ReflectionKind\<close> is an enumeration of the TypeDoc library
  and not part of the source. The spec gives the kind of a declaration node as a variant
  (Namespace, value or property, Parameter, TypeAlias, and others). The source tests
  \<^verbatim>\<open>kind === Namespace\<close> and \<^verbatim>\<open>kind & VariableOrProperty\<close>, and creates nodes of kind
  Parameter and TypeAlias.
\<close>

datatype kind = Namespace | Variable | Property | Parameter | TypeAlias | OtherKind

definition VariableOrProperty :: "kind \<Rightarrow> bool" where
  "VariableOrProperty k = (k = Variable \<or> k = Property)"

text \<open>A comment tag \<^verbatim>\<open>{tag, text}\<close> and a comment.\<close>

datatype commentTag = CommentTag (tag: "string") (tagText: "string")

datatype comment = Comment
  (shortText: "string option")
  (longText: "string option")
  (tags: "commentTag list option")
  (returns: "string option")

text \<open>\<^verbatim>\<open>FeatureInfo\<close> and the \<^verbatim>\<open>deprecated\<close> record it shares.\<close>

datatype deprecatedInfo = DeprecatedInfo (deprecatedValue: "string") (deprecatedSince: "string option")

datatype featureInfo = FeatureInfo
  (channel: "string")
  (since: "string option")
  (deprecated: "deprecatedInfo option")
  (permissions: "string list option")
  (manifestKeys: "string list option")
  (minManifest: "string option")
  (maxManifest: "string option")
  (platformAppsOnly: "bool")
  (disallowServiceWorkers: "bool")

text \<open>
  The values \<^verbatim>\<open>JSON.parse\<close> returns. A number is kept as the text of its literal.
\<close>

datatype jsonValue =
    JsonNull
  | JsonBool "bool"
  | JsonNumber "string"
  | JsonString "string"
  | JsonArray "jsonValue list"
  | JsonObject "(string \<times> jsonValue) list"

text \<open>
  Nodes, their types and their call signatures are mutually recursive, as in the JSON.
\<close>

datatype node = Node
    (nid: "int")
    (name: "string")
    (kind: "kind")
    (children: "node list option")
    (ntype: "ty option")
    (signatures: "signature list option")
    (comment: "comment option")
    (isOptional: "bool")
    (ext: "ext")
and ty =
    Reference (refId: "int option") (refName: "string") (typeArguments: "ty list option")
  | Reflection (reflDeclaration: "node option")
  | Union (unionTypes: "ty list")
  | Intersection (intersectionTypes: "ty list")
  | Array (elementType: "ty")
  | Tuple (elements: "ty list option")
  | Intrinsic (intrinsicName: "string")
  | OtherType (otherName: "string")
and signature = Signature
    (parameters: "node list option")
    (sigType: "ty option")
    (sigComment: "comment option")
and ext = Ext
    (ext_name: "string option")
    (ext_pageHref: "string option")
    (ext_pageId: "string option")
    (ext_type: "node list option")
    (ext_method: "methodInfo option")
    (ext_event: "eventInfo option")
    (ext_feature: "featureInfo option")
    (ext_enums: "(jsonValue \<times> string) list option")
and methodInfo = MethodInfo
    (methodParameters: "node list")
    (methodReturn: "node option")
    (isReturnsAsync: "bool")
and eventInfo = EventInfo
    (conditions: "ty list option")
    (actions: "ty list option")


text \<open>Field updates (JavaScript assigns to a property of the object).\<close>

definition set_children :: "node list option \<Rightarrow> node \<Rightarrow> node" where
  "set_children v n =
     Node (nid n) (name n) (kind n) v (ntype n) (signatures n) (comment n) (isOptional n) (ext n)"

definition set_ntype :: "ty option \<Rightarrow> node \<Rightarrow> node" where
  "set_ntype v n =
     Node (nid n) (name n) (kind n) (children n) v (signatures n) (comment n) (isOptional n) (ext n)"

definition set_signatures :: "signature list option \<Rightarrow> node \<Rightarrow> node" where
  "set_signatures v n =
     Node (nid n) (name n) (kind n) (children n) (ntype n) v (comment n) (isOptional n) (ext n)"

definition set_comment :: "comment option \<Rightarrow> node \<Rightarrow> node" where
  "set_comment v n =
     Node (nid n) (name n) (kind n) (children n) (ntype n) (signatures n) v (isOptional n) (ext n)"

definition set_ext :: "ext \<Rightarrow> node \<Rightarrow> node" where
  "set_ext v n =
     Node (nid n) (name n) (kind n) (children n) (ntype n) (signatures n) (comment n) (isOptional n) v"

definition set_name :: "string option \<Rightarrow> node \<Rightarrow> node" where
  "set_name v n = (let e = ext n in set_ext (Ext v (ext_pageHref e) (ext_pageId e) (ext_type e)
     (ext_method e) (ext_event e) (ext_feature e) (ext_enums e)) n)"

definition set_pageHref :: "string option \<Rightarrow> node \<Rightarrow> node" where
  "set_pageHref v n = (let e = ext n in set_ext (Ext (ext_name e) v (ext_pageId e) (ext_type e)
     (ext_method e) (ext_event e) (ext_feature e) (ext_enums e)) n)"

definition set_pageId :: "string option \<Rightarrow> node \<Rightarrow> node" where
  "set_pageId v n = (let e = ext n in set_ext (Ext (ext_name e) (ext_pageHref e) v (ext_type e)
     (ext_method e) (ext_event e) (ext_feature e) (ext_enums e)) n)"

definition set_type :: "node list option \<Rightarrow> node \<Rightarrow> node" where
  "set_type v n = (let e = ext n in set_ext (Ext (ext_name e) (ext_pageHref e) (ext_pageId e) v
     (ext_method e) (ext_event e) (ext_feature e) (ext_enums e)) n)"

definition set_method :: "methodInfo option \<Rightarrow> node \<Rightarrow> node" where
  "set_method v n = (let e = ext n in set_ext (Ext (ext_name e) (ext_pageHref e) (ext_pageId e)
     (ext_type e) v (ext_event e) (ext_feature e) (ext_enums e)) n)"

definition set_event :: "eventInfo option \<Rightarrow> node \<Rightarrow> node" where
  "set_event v n = (let e = ext n in set_ext (Ext (ext_name e) (ext_pageHref e) (ext_pageId e)
     (ext_type e) (ext_method e) v (ext_feature e) (ext_enums e)) n)"

definition set_feature :: "featureInfo option \<Rightarrow> node \<Rightarrow> node" where
  "set_feature v n = (let e = ext n in set_ext (Ext (ext_name e) (ext_pageHref e) (ext_pageId e)
     (ext_type e) (ext_method e) (ext_event e) v (ext_enums e)) n)"

definition set_enums :: "(jsonValue \<times> string) list option \<Rightarrow> node \<Rightarrow> node" where
  "set_enums v n = (let e = ext n in set_ext (Ext (ext_name e) (ext_pageHref e) (ext_pageId e)
     (ext_type e) (ext_method e) (ext_event e) (ext_feature e) v) n)"

text \<open>A node as TypeDoc (or the walker, for a virtual node) creates it: nothing bolted on.\<close>

definition noExt :: "ext" where
  "noExt = Ext None None None None None None None None"

lemmas core_setter_defs = set_children_def set_ntype_def set_signatures_def set_comment_def
  set_ext_def

lemmas ext_setter_defs = set_name_def set_pageHref_def set_pageId_def set_type_def
  set_method_def set_event_def set_feature_def set_enums_def

text \<open>What a field update leaves alone, and what it writes.\<close>

lemma set_children_sel [simp]:
  "nid (set_children v n) = nid n"
  "name (set_children v n) = name n"
  "kind (set_children v n) = kind n"
  "children (set_children v n) = v"
  "ntype (set_children v n) = ntype n"
  "signatures (set_children v n) = signatures n"
  "comment (set_children v n) = comment n"
  "isOptional (set_children v n) = isOptional n"
  "ext (set_children v n) = ext n"
  by (simp_all add: set_children_def)

lemma set_ntype_sel [simp]:
  "nid (set_ntype v n) = nid n"
  "name (set_ntype v n) = name n"
  "kind (set_ntype v n) = kind n"
  "children (set_ntype v n) = children n"
  "ntype (set_ntype v n) = v"
  "signatures (set_ntype v n) = signatures n"
  "comment (set_ntype v n) = comment n"
  "isOptional (set_ntype v n) = isOptional n"
  "ext (set_ntype v n) = ext n"
  by (simp_all add: set_ntype_def)

lemma set_signatures_sel [simp]:
  "nid (set_signatures v n) = nid n"
  "name (set_signatures v n) = name n"
  "kind (set_signatures v n) = kind n"
  "children (set_signatures v n) = children n"
  "ntype (set_signatures v n) = ntype n"
  "signatures (set_signatures v n) = v"
  "comment (set_signatures v n) = comment n"
  "isOptional (set_signatures v n) = isOptional n"
  "ext (set_signatures v n) = ext n"
  by (simp_all add: set_signatures_def)

lemma set_comment_sel [simp]:
  "nid (set_comment v n) = nid n"
  "name (set_comment v n) = name n"
  "kind (set_comment v n) = kind n"
  "children (set_comment v n) = children n"
  "ntype (set_comment v n) = ntype n"
  "signatures (set_comment v n) = signatures n"
  "comment (set_comment v n) = v"
  "isOptional (set_comment v n) = isOptional n"
  "ext (set_comment v n) = ext n"
  by (simp_all add: set_comment_def)

lemma set_ext_sel [simp]:
  "nid (set_ext v n) = nid n"
  "name (set_ext v n) = name n"
  "kind (set_ext v n) = kind n"
  "children (set_ext v n) = children n"
  "ntype (set_ext v n) = ntype n"
  "signatures (set_ext v n) = signatures n"
  "comment (set_ext v n) = comment n"
  "isOptional (set_ext v n) = isOptional n"
  "ext (set_ext v n) = v"
  by (simp_all add: set_ext_def)

lemma set_name_sel [simp]:
  "nid (set_name v n) = nid n"
  "name (set_name v n) = name n"
  "kind (set_name v n) = kind n"
  "children (set_name v n) = children n"
  "ntype (set_name v n) = ntype n"
  "signatures (set_name v n) = signatures n"
  "comment (set_name v n) = comment n"
  "isOptional (set_name v n) = isOptional n"
  "ext_name (ext (set_name v n)) = v"
  "ext_pageHref (ext (set_name v n)) = ext_pageHref (ext n)"
  "ext_pageId (ext (set_name v n)) = ext_pageId (ext n)"
  "ext_type (ext (set_name v n)) = ext_type (ext n)"
  "ext_method (ext (set_name v n)) = ext_method (ext n)"
  "ext_event (ext (set_name v n)) = ext_event (ext n)"
  "ext_feature (ext (set_name v n)) = ext_feature (ext n)"
  "ext_enums (ext (set_name v n)) = ext_enums (ext n)"
  by (simp_all add: set_name_def Let_def)

lemma set_pageHref_sel [simp]:
  "nid (set_pageHref v n) = nid n"
  "name (set_pageHref v n) = name n"
  "kind (set_pageHref v n) = kind n"
  "children (set_pageHref v n) = children n"
  "ntype (set_pageHref v n) = ntype n"
  "signatures (set_pageHref v n) = signatures n"
  "comment (set_pageHref v n) = comment n"
  "isOptional (set_pageHref v n) = isOptional n"
  "ext_name (ext (set_pageHref v n)) = ext_name (ext n)"
  "ext_pageHref (ext (set_pageHref v n)) = v"
  "ext_pageId (ext (set_pageHref v n)) = ext_pageId (ext n)"
  "ext_type (ext (set_pageHref v n)) = ext_type (ext n)"
  "ext_method (ext (set_pageHref v n)) = ext_method (ext n)"
  "ext_event (ext (set_pageHref v n)) = ext_event (ext n)"
  "ext_feature (ext (set_pageHref v n)) = ext_feature (ext n)"
  "ext_enums (ext (set_pageHref v n)) = ext_enums (ext n)"
  by (simp_all add: set_pageHref_def Let_def)

lemma set_pageId_sel [simp]:
  "nid (set_pageId v n) = nid n"
  "name (set_pageId v n) = name n"
  "kind (set_pageId v n) = kind n"
  "children (set_pageId v n) = children n"
  "ntype (set_pageId v n) = ntype n"
  "signatures (set_pageId v n) = signatures n"
  "comment (set_pageId v n) = comment n"
  "isOptional (set_pageId v n) = isOptional n"
  "ext_name (ext (set_pageId v n)) = ext_name (ext n)"
  "ext_pageHref (ext (set_pageId v n)) = ext_pageHref (ext n)"
  "ext_pageId (ext (set_pageId v n)) = v"
  "ext_type (ext (set_pageId v n)) = ext_type (ext n)"
  "ext_method (ext (set_pageId v n)) = ext_method (ext n)"
  "ext_event (ext (set_pageId v n)) = ext_event (ext n)"
  "ext_feature (ext (set_pageId v n)) = ext_feature (ext n)"
  "ext_enums (ext (set_pageId v n)) = ext_enums (ext n)"
  by (simp_all add: set_pageId_def Let_def)

lemma set_type_sel [simp]:
  "nid (set_type v n) = nid n"
  "name (set_type v n) = name n"
  "kind (set_type v n) = kind n"
  "children (set_type v n) = children n"
  "ntype (set_type v n) = ntype n"
  "signatures (set_type v n) = signatures n"
  "comment (set_type v n) = comment n"
  "isOptional (set_type v n) = isOptional n"
  "ext_name (ext (set_type v n)) = ext_name (ext n)"
  "ext_pageHref (ext (set_type v n)) = ext_pageHref (ext n)"
  "ext_pageId (ext (set_type v n)) = ext_pageId (ext n)"
  "ext_type (ext (set_type v n)) = v"
  "ext_method (ext (set_type v n)) = ext_method (ext n)"
  "ext_event (ext (set_type v n)) = ext_event (ext n)"
  "ext_feature (ext (set_type v n)) = ext_feature (ext n)"
  "ext_enums (ext (set_type v n)) = ext_enums (ext n)"
  by (simp_all add: set_type_def Let_def)

lemma set_method_sel [simp]:
  "nid (set_method v n) = nid n"
  "name (set_method v n) = name n"
  "kind (set_method v n) = kind n"
  "children (set_method v n) = children n"
  "ntype (set_method v n) = ntype n"
  "signatures (set_method v n) = signatures n"
  "comment (set_method v n) = comment n"
  "isOptional (set_method v n) = isOptional n"
  "ext_name (ext (set_method v n)) = ext_name (ext n)"
  "ext_pageHref (ext (set_method v n)) = ext_pageHref (ext n)"
  "ext_pageId (ext (set_method v n)) = ext_pageId (ext n)"
  "ext_type (ext (set_method v n)) = ext_type (ext n)"
  "ext_method (ext (set_method v n)) = v"
  "ext_event (ext (set_method v n)) = ext_event (ext n)"
  "ext_feature (ext (set_method v n)) = ext_feature (ext n)"
  "ext_enums (ext (set_method v n)) = ext_enums (ext n)"
  by (simp_all add: set_method_def Let_def)

lemma set_event_sel [simp]:
  "nid (set_event v n) = nid n"
  "name (set_event v n) = name n"
  "kind (set_event v n) = kind n"
  "children (set_event v n) = children n"
  "ntype (set_event v n) = ntype n"
  "signatures (set_event v n) = signatures n"
  "comment (set_event v n) = comment n"
  "isOptional (set_event v n) = isOptional n"
  "ext_name (ext (set_event v n)) = ext_name (ext n)"
  "ext_pageHref (ext (set_event v n)) = ext_pageHref (ext n)"
  "ext_pageId (ext (set_event v n)) = ext_pageId (ext n)"
  "ext_type (ext (set_event v n)) = ext_type (ext n)"
  "ext_method (ext (set_event v n)) = ext_method (ext n)"
  "ext_event (ext (set_event v n)) = v"
  "ext_feature (ext (set_event v n)) = ext_feature (ext n)"
  "ext_enums (ext (set_event v n)) = ext_enums (ext n)"
  by (simp_all add: set_event_def Let_def)

lemma set_feature_sel [simp]:
  "nid (set_feature v n) = nid n"
  "name (set_feature v n) = name n"
  "kind (set_feature v n) = kind n"
  "children (set_feature v n) = children n"
  "ntype (set_feature v n) = ntype n"
  "signatures (set_feature v n) = signatures n"
  "comment (set_feature v n) = comment n"
  "isOptional (set_feature v n) = isOptional n"
  "ext_name (ext (set_feature v n)) = ext_name (ext n)"
  "ext_pageHref (ext (set_feature v n)) = ext_pageHref (ext n)"
  "ext_pageId (ext (set_feature v n)) = ext_pageId (ext n)"
  "ext_type (ext (set_feature v n)) = ext_type (ext n)"
  "ext_method (ext (set_feature v n)) = ext_method (ext n)"
  "ext_event (ext (set_feature v n)) = ext_event (ext n)"
  "ext_feature (ext (set_feature v n)) = v"
  "ext_enums (ext (set_feature v n)) = ext_enums (ext n)"
  by (simp_all add: set_feature_def Let_def)

lemma set_enums_sel [simp]:
  "nid (set_enums v n) = nid n"
  "name (set_enums v n) = name n"
  "kind (set_enums v n) = kind n"
  "children (set_enums v n) = children n"
  "ntype (set_enums v n) = ntype n"
  "signatures (set_enums v n) = signatures n"
  "comment (set_enums v n) = comment n"
  "isOptional (set_enums v n) = isOptional n"
  "ext_name (ext (set_enums v n)) = ext_name (ext n)"
  "ext_pageHref (ext (set_enums v n)) = ext_pageHref (ext n)"
  "ext_pageId (ext (set_enums v n)) = ext_pageId (ext n)"
  "ext_type (ext (set_enums v n)) = ext_type (ext n)"
  "ext_method (ext (set_enums v n)) = ext_method (ext n)"
  "ext_event (ext (set_enums v n)) = ext_event (ext n)"
  "ext_feature (ext (set_enums v n)) = ext_feature (ext n)"
  "ext_enums (ext (set_enums v n)) = v"
  by (simp_all add: set_enums_def Let_def)

section \<open>String primitives of JavaScript\<close>

text \<open>
  \<^verbatim>\<open>String.prototype.trim\<close> strips white space and line terminators at both ends; on ASCII
  text these are tab, line feed, vertical tab, form feed, carriage return and space.
\<close>

definition isWhiteSpace :: "char \<Rightarrow> bool" where
  "isWhiteSpace c = (c \<in> set [CHR 0x09, CHR 0x0A, CHR 0x0B, CHR 0x0C, CHR 0x0D, CHR '' ''])"

definition trim :: "string \<Rightarrow> string" where
  "trim s = rev (dropWhile isWhiteSpace (rev (dropWhile isWhiteSpace s)))"


text \<open>\<^verbatim>\<open>s.replace(/c/g, d)\<close> for a single character \<open>c\<close>.\<close>

definition replaceAllChar :: "char \<Rightarrow> char \<Rightarrow> string \<Rightarrow> string" where
  "replaceAllChar c d s = map (\<lambda>x. if x = c then d else x) s"

text \<open>\<^verbatim>\<open>s.startsWith(p)\<close>.\<close>

definition startsWith :: "string \<Rightarrow> string \<Rightarrow> bool" where
  "startsWith s p = (take (length p) s = p)"

text \<open>
  A template literal or \<^verbatim>\<open>+\<close> turns \<^verbatim>\<open>undefined\<close> into the text \<^verbatim>\<open>undefined\<close>.
\<close>

definition str :: "string option \<Rightarrow> string" where
  "str v = (case v of Some s \<Rightarrow> s | None \<Rightarrow> ''undefined'')"

section \<open>Href computation and dotted-name lookup\<close>

text \<open>
  \<^verbatim>\<open>createHref(from, to)\<close>. The tests \<^verbatim>\<open>to._pageId ? ... : ''\<close> and
  \<^verbatim>\<open>hashPlusId || undefined\<close> are truthiness tests: the empty string counts as absent.
\<close>

definition createHref :: "node \<Rightarrow> node \<Rightarrow> string option" where
  "createHref frm to =
     (let hashPlusId = (case ext_pageId (ext to) of
                          Some p \<Rightarrow> if p \<noteq> [] then ''#'' @ p else []
                        | None \<Rightarrow> [])
      in if ext_pageHref (ext frm) = ext_pageHref (ext to)
         then (if hashPlusId \<noteq> [] then Some hashPlusId else None)
         else Some (''../'' @ str (ext_pageHref (ext to)) @ ''/'' @ hashPlusId))"







subsection \<open>The lookup order, as the specification words it\<close>

text \<open>
  Dropping the last dotted segment of a name, the chain of enclosing scopes of a name (the
  name itself, then each shorter one, then the empty global scope), the keys tried for a
  link in these scopes, and the first of a list of keys that the index has.
\<close>


definition dropLastSegment :: "string \<Rightarrow> string" where
  "dropLastSegment s = rev (drop 1 (dropWhile (\<lambda>c. c \<noteq> CHR ''.'') (rev s)))"







lemma dropLastSegment_append:
  "CHR ''.'' \<notin> set seg \<Longrightarrow> dropLastSegment (s @ ''.'' @ seg) = s"
proof -
  assume a: "CHR ''.'' \<notin> set seg"
  then have "dropWhile (\<lambda>c. c \<noteq> CHR ''.'') (rev seg) = []" by auto
  then have "dropWhile (\<lambda>c. c \<noteq> CHR ''.'') (rev seg @ CHR ''.'' # rev s) = CHR ''.'' # rev s"
    using a by (simp add: dropWhile_append)
  then show ?thesis by (simp add: dropLastSegment_def)
qed



section \<open>Href computation: the claim\<close>

text \<open>
  C7. For nodes \<open>frm\<close> and \<open>to\<close> that carry a \<^verbatim>\<open>_pageHref\<close>: on the same page the href is
  \<^verbatim>\<open>"#" + to._pageId\<close> when \<open>to\<close> has a page id and no href at all (a self link) when it has
  none; on different pages it is \<^verbatim>\<open>"../" + to._pageHref + "/"\<close>, followed by
  \<^verbatim>\<open>"#" + to._pageId\<close> exactly when \<open>to\<close> has a page id. A page id that is present is a
  non-empty string (the walker only ever assigns \<^verbatim>\<open>nodePrefix + '-' + ...\<close>).
\<close>

theorem createHref_same_or_other_page:
  assumes "ext_pageHref (ext frm) = Some hf"
      and "ext_pageHref (ext to) = Some ht"
      and "\<forall>p. ext_pageId (ext to) = Some p \<longrightarrow> p \<noteq> []"
  shows "(hf = ht \<longrightarrow>
            createHref frm to =
              (case ext_pageId (ext to) of Some p \<Rightarrow> Some (''#'' @ p) | None \<Rightarrow> None))
       \<and> (hf \<noteq> ht \<longrightarrow>
            createHref frm to =
              Some (''../'' @ ht @ ''/'' @
                    (case ext_pageId (ext to) of Some p \<Rightarrow> ''#'' @ p | None \<Rightarrow> [])))"
  using assms by (auto simp: createHref_def str_def Let_def split: option.splits)

theorem createHref_same_or_other_page_witness:
  "createHref
     (Node 1 ''a'' Property None None None None False
        (Ext (Some ''tabs.a'') (Some ''tabs'') (Some ''property-a'') None None None None None))
     (Node 2 ''b'' Property None None None None False
        (Ext (Some ''windows.b'') (Some ''windows'') (Some ''property-b'') None None None None None))
   = Some ''../windows/#property-b''"
  using createHref_same_or_other_page
    [of "Node 1 ''a'' Property None None None None False
           (Ext (Some ''tabs.a'') (Some ''tabs'') (Some ''property-a'') None None None None None)"
        "''tabs''"
        "Node 2 ''b'' Property None None None None False
           (Ext (Some ''windows.b'') (Some ''windows'') (Some ''property-b'') None None None None None)"
        "''windows''"]
  by simp

section \<open>Dotted-name lookup: the claim\<close>




section \<open>Tag extractors\<close>

text \<open>Every \<^verbatim>\<open>throw\<close> of the source, and the exceptions of the built-ins it calls.\<close>

datatype error =
    ReferenceWithoutArgument
  | UnexpectedFirstArgument
  | DeclarativeMissingArgs
  | JsonSyntaxError
  | TypeError

text \<open>\<^verbatim>\<open>_processTagsToFeature\<close>: one step of the \<^verbatim>\<open>forEach\<close>, on the result \<open>out\<close> and the
  shared \<^verbatim>\<open>deprecated\<close> object. Both deprecation tags store that object in \<open>out\<close> and then
  write one of its fields, so \<open>out\<close> always shows its current state.\<close>

definition featureStep :: "featureInfo \<times> deprecatedInfo \<Rightarrow> commentTag \<Rightarrow> featureInfo \<times> deprecatedInfo" where
  "featureStep acc t =
     (let out = fst acc; dep = snd acc; text = trim (tagText t); k = tag t in
      if k = ''chrome-platform-apps'' then
        (FeatureInfo (channel out) (since out) (deprecated out) (permissions out)
           (manifestKeys out) (minManifest out) (maxManifest out) True
           (disallowServiceWorkers out), dep)
      else if k = ''since'' then
        (FeatureInfo (channel out) (Some text) (deprecated out) (permissions out)
           (manifestKeys out) (minManifest out) (maxManifest out) (platformAppsOnly out)
           (disallowServiceWorkers out), dep)
      else if k = ''chrome-channel'' then
        (FeatureInfo text (since out) (deprecated out) (permissions out)
           (manifestKeys out) (minManifest out) (maxManifest out) (platformAppsOnly out)
           (disallowServiceWorkers out), dep)
      else if k = ''chrome-permission'' then
        (FeatureInfo (channel out) (since out) (deprecated out)
           (Some ((case permissions out of Some ps \<Rightarrow> ps | None \<Rightarrow> []) @ [text]))
           (manifestKeys out) (minManifest out) (maxManifest out) (platformAppsOnly out)
           (disallowServiceWorkers out), dep)
      else if k = ''chrome-manifest'' then
        (FeatureInfo (channel out) (since out) (deprecated out) (permissions out)
           (Some ((case manifestKeys out of Some ks \<Rightarrow> ks | None \<Rightarrow> []) @ [text]))
           (minManifest out) (maxManifest out) (platformAppsOnly out)
           (disallowServiceWorkers out), dep)
      else if k = ''deprecated'' then
        (let dep' = DeprecatedInfo text (deprecatedSince dep) in
         (FeatureInfo (channel out) (since out) (Some dep') (permissions out)
            (manifestKeys out) (minManifest out) (maxManifest out) (platformAppsOnly out)
            (disallowServiceWorkers out), dep'))
      else if k = ''chrome-deprecated-since'' then
        (let dep' = DeprecatedInfo (deprecatedValue dep) (Some text) in
         (FeatureInfo (channel out) (since out) (Some dep') (permissions out)
            (manifestKeys out) (minManifest out) (maxManifest out) (platformAppsOnly out)
            (disallowServiceWorkers out), dep'))
      else if k = ''chrome-min-manifest'' then
        (FeatureInfo (channel out) (since out) (deprecated out) (permissions out)
           (manifestKeys out) (Some text) (maxManifest out) (platformAppsOnly out)
           (disallowServiceWorkers out), dep)
      else if k = ''chrome-max-manifest'' then
        (FeatureInfo (channel out) (since out) (deprecated out) (permissions out)
           (manifestKeys out) (minManifest out) (Some text) (platformAppsOnly out)
           (disallowServiceWorkers out), dep)
      else if k = ''chrome-disallow-service-workers'' then
        (FeatureInfo (channel out) (since out) (deprecated out) (permissions out)
           (manifestKeys out) (minManifest out) (maxManifest out) (platformAppsOnly out)
           True, dep)
      else (out, dep))"

definition processTagsToFeature :: "commentTag list \<Rightarrow> featureInfo" where
  "processTagsToFeature ts =
     fst (foldl featureStep
            (FeatureInfo ''stable'' None None None None None None False False,
             DeprecatedInfo [] None) ts)"

text \<open>
  \<^verbatim>\<open>_processTagsForChromeEnum\<close>. \<^verbatim>\<open>text.split(' ')[0]\<close> is the text up to the first space;
  \<^verbatim>\<open>replace(/\\_/g, '_')\<close> turns every backslash-underscore into an underscore.
  \<^verbatim>\<open>JSON.parse\<close> is a built-in of the language: it is the parameter \<open>JSON_parse\<close>, \<open>None\<close>
  when it throws a \<^verbatim>\<open>SyntaxError\<close>.
\<close>

definition firstSplitOnSpace :: "string \<Rightarrow> string" where
  "firstSplitOnSpace s = takeWhile (\<lambda>c. c \<noteq> CHR '' '') s"

fun unescapeUnderscore :: "string \<Rightarrow> string" where
  "unescapeUnderscore (a # b # s) =
     (if a = CHR 0x5C \<and> b = CHR ''_'' then CHR ''_'' # unescapeUnderscore s
      else a # unescapeUnderscore (b # s))"
| "unescapeUnderscore s = s"

fun enumLoop :: "(string \<Rightarrow> jsonValue option) \<Rightarrow> commentTag list \<Rightarrow>
    (jsonValue \<times> string) list \<Rightarrow> error + (jsonValue \<times> string) list" where
  "enumLoop JSON_parse [] enums = Inr enums"
| "enumLoop JSON_parse (t # ts) enums =
     (let text = trim (tagText t) in
      if tag t \<noteq> ''chrome-enum'' then enumLoop JSON_parse ts enums
      else
        (let raw = unescapeUnderscore (firstSplitOnSpace text) in
         case JSON_parse raw of
           None \<Rightarrow> Inl JsonSyntaxError
         | Some v \<Rightarrow>
             (let rest = trim (drop (length raw + 1) text)
              in enumLoop JSON_parse ts (enums @ [(v, rest)]))))"

definition processTagsForChromeEnum :: "(string \<Rightarrow> jsonValue option) \<Rightarrow> commentTag list \<Rightarrow>
    error + (jsonValue \<times> string) list option" where
  "processTagsForChromeEnum JSON_parse ts =
     (case enumLoop JSON_parse ts [] of
        Inl e \<Rightarrow> Inl e
      | Inr enums \<Rightarrow> Inr (if enums \<noteq> [] then Some enums else None))"

text \<open>
  \<^verbatim>\<open>JSON.parse\<close> on the literals the enum tags of Chrome's declarations use: a string in
  double quotes with no escape inside. It stands in for the built-in where a concrete
  parser is needed, and is not defined on anything else.
\<close>

definition parsePlainStringLiteral :: "string \<Rightarrow> jsonValue option" where
  "parsePlainStringLiteral s =
     (if 2 \<le> length s \<and> hd s = CHR 0x22 \<and> last s = CHR 0x22
         \<and> (\<forall>c \<in> set (butlast (tl s)). c \<noteq> CHR 0x22 \<and> c \<noteq> CHR 0x5C \<and> (31::nat) < of_char c)
      then Some (JsonString (butlast (tl s))) else None)"

section \<open>Promoting parameter and return tags\<close>

text \<open>\<^verbatim>\<open>(param.comment.tags ?? []).concat(virtualNodeTags)\<close>, after \<^verbatim>\<open>param.comment\<close> has
  been made an object.\<close>

definition appendCommentTags :: "commentTag list \<Rightarrow> node \<Rightarrow> node" where
  "appendCommentTags vts p =
     (let c = (case comment p of Some c \<Rightarrow> c | None \<Rightarrow> Comment None None None None)
      in set_comment
           (Some (Comment (shortText c) (longText c)
                    (Some ((case tags c of Some ts \<Rightarrow> ts | None \<Rightarrow> []) @ vts)) (returns c))) p)"

fun paramSinceTags :: "string \<Rightarrow> commentTag list \<Rightarrow> commentTag list" where
  "paramSinceTags paramPrefix [] = []"
| "paramSinceTags paramPrefix (t # ts) =
     (if \<not> startsWith (tagText t) paramPrefix then paramSinceTags paramPrefix ts
      else
        (let text = drop (length paramPrefix) (tagText t) in
         if tag t = ''chrome-param-since''
           then CommentTag ''since'' text # paramSinceTags paramPrefix ts
         else if tag t = ''chrome-param-deprecated-since''
           then CommentTag ''chrome-deprecated-since'' text # paramSinceTags paramPrefix ts
         else if tag t = ''chrome-param-deprecated''
           then CommentTag ''deprecated'' text # paramSinceTags paramPrefix ts
         else paramSinceTags paramPrefix ts))"

definition upgradeParamWithParamSinceTags :: "node \<Rightarrow> commentTag list \<Rightarrow> node" where
  "upgradeParamWithParamSinceTags param ts =
     appendCommentTags (paramSinceTags (name param @ '' '') ts) param"

fun returnSinceTags :: "commentTag list \<Rightarrow> commentTag list" where
  "returnSinceTags [] = []"
| "returnSinceTags (t # ts) =
     (let text = tagText t in
      if tag t = ''chrome-returns-since''
        then CommentTag ''since'' text # returnSinceTags ts
      else if tag t = ''chrome-returns-deprecated-since''
        then CommentTag ''chrome-deprecated-since'' text # returnSinceTags ts
      else if tag t = ''chrome-returns-deprecated''
        then CommentTag ''deprecated'' text # returnSinceTags ts
      else returnSinceTags ts)"

definition upgradeReturnWithReturnSinceTags :: "node \<Rightarrow> commentTag list \<Rightarrow> node" where
  "upgradeReturnWithReturnSinceTags param ts = appendCommentTags (returnSinceTags ts) param"

text \<open>\<^verbatim>\<open>comment?.tags ?? []\<close>.\<close>

definition tagsOf :: "comment option \<Rightarrow> commentTag list" where
  "tagsOf c = (case c of Some c' \<Rightarrow> (case tags c' of Some ts \<Rightarrow> ts | None \<Rightarrow> []) | None \<Rightarrow> [])"

section \<open>The event upgrader\<close>

definition chromeEventRefTypes :: "string list" where
  "chromeEventRefTypes = [''CustomChromeEvent'', ''events.Event'', ''Event'']"

text \<open>A virtual node \<^verbatim>\<open>{id: -1, name, kind, flags: {}, type}\<close>.\<close>

definition virtualNode :: "string \<Rightarrow> kind \<Rightarrow> ty option \<Rightarrow> node" where
  "virtualNode nm k t = Node (- 1) nm k None t None None False noExt"

definition ensureArrayOfType :: "ty \<Rightarrow> ty list" where
  "ensureArrayOfType t = (case t of Union ts \<Rightarrow> ts | _ \<Rightarrow> [t])"

text \<open>\<^verbatim>\<open>arg.declaration?.signatures?.[0]?.parameters ?? []\<close>.\<close>

definition firstSignatureParameters :: "ty \<Rightarrow> node list" where
  "firstSignatureParameters arg =
     (case arg of
        Reflection (Some d) \<Rightarrow>
          (case signatures d of
             Some (s # _) \<Rightarrow> (case parameters s of Some ps \<Rightarrow> ps | None \<Rightarrow> [])
           | _ \<Rightarrow> [])
      | _ \<Rightarrow> [])"

text \<open>
  \<^verbatim>\<open>upgradeEventNode(node)\<close> returns the nodes to walk and writes \<^verbatim>\<open>_method\<close> and \<^verbatim>\<open>_event\<close>
  on the node: the result is the updated node, the returned list, and whether that list is
  the very array stored in \<^verbatim>\<open>_method.parameters\<close> (so that walking its elements shows there).
  A node whose type is no reference has no \<^verbatim>\<open>typeArguments\<close>, and fails like one without.
\<close>

definition upgradeEventNode :: "node \<Rightarrow> error + (node \<times> node list \<times> bool)" where
  "upgradeEventNode node =
     (case ntype node of
        Some (Reference rid rname targs) \<Rightarrow>
          (case targs of
             None \<Rightarrow> Inl ReferenceWithoutArgument
           | Some [] \<Rightarrow> Inl ReferenceWithoutArgument
           | Some (firstArgument # more) \<Rightarrow>
               if rname = ''CustomChromeEvent'' then
                 (let ps = firstSignatureParameters firstArgument in
                  Inr (set_event (Some (EventInfo None None))
                         (set_method (Some (MethodInfo ps None False)) node), ps, True))
               else
                 (case firstArgument of
                    Intrinsic iname \<Rightarrow>
                      if iname \<noteq> ''never'' then Inl UnexpectedFirstArgument
                      else
                        (case more of
                           a1 # a2 # rest \<Rightarrow>
                             (let conds = ensureArrayOfType a1; acts = ensureArrayOfType a2 in
                              Inr (set_event (Some (EventInfo (Some conds) (Some acts))) node,
                                   map (\<lambda>t. virtualNode ''_declarative-fake'' TypeAlias (Some t))
                                     (conds @ acts),
                                   False))
                         | _ \<Rightarrow> Inl DeclarativeMissingArgs)
                  | _ \<Rightarrow>
                      (let ps = [virtualNode ''callback'' Parameter (Some firstArgument)] in
                       Inr (set_event (Some (EventInfo None None))
                              (set_method (Some (MethodInfo ps None False)) node), ps, True))))
      | _ \<Rightarrow> Inl ReferenceWithoutArgument)"

section \<open>Merging call signatures\<close>

text \<open>
  \<^verbatim>\<open>allParams\<close> is a \<^verbatim>\<open>Map\<close>: it keeps its keys in the order of their first insertion, and
  \<^verbatim>\<open>set\<close> on a key it has replaces the value where it stands.
\<close>

fun mapSet :: "'k \<Rightarrow> 'a \<Rightarrow> ('k \<times> 'a) list \<Rightarrow> ('k \<times> 'a) list" where
  "mapSet k v [] = [(k, v)]"
| "mapSet k v (p # ps) = (if fst p = k then (k, v) # ps else p # mapSet k v ps)"

text \<open>The inner loop over the parameters of one signature, whose comment tags are \<open>ts\<close>.\<close>

fun paramLoop :: "commentTag list \<Rightarrow> node list \<Rightarrow> (string \<times> node) list \<Rightarrow> (string \<times> node) list" where
  "paramLoop ts [] allParams = allParams"
| "paramLoop ts (param # ps) allParams =
     paramLoop ts ps
       (if map_of allParams (name param) = None \<or> isOptional param
        then mapSet (name param) (upgradeParamWithParamSinceTags param ts) allParams
        else allParams)"

text \<open>The variables the loop over the signatures updates.\<close>

record signatureVars =
  allParams :: "(string \<times> node) list"
  nodeComment :: "comment option"
  returnSignatureComment :: "comment option"
  returnType :: "ty option"

definition isVoid :: "ty \<Rightarrow> bool" where
  "isVoid t = (case t of Intrinsic nm \<Rightarrow> nm = ''void'' | _ \<Rightarrow> False)"

fun signatureLoop :: "signature list \<Rightarrow> signatureVars \<Rightarrow> signatureVars" where
  "signatureLoop [] v = v"
| "signatureLoop (s # ss) v =
     (let v1 = v\<lparr>allParams :=
                  paramLoop (tagsOf (sigComment s))
                    (case parameters s of Some ps \<Rightarrow> ps | None \<Rightarrow> []) (allParams v)\<rparr>;
          v2 = (case sigType s of
                  Some t \<Rightarrow>
                    if \<not> isVoid t then
                      v1\<lparr>nodeComment := (case nodeComment v1 of Some c \<Rightarrow> Some c
                                           | None \<Rightarrow> sigComment s),
                         returnSignatureComment := sigComment s,
                         returnType := Some t\<rparr>
                    else v1
                | None \<Rightarrow> v1)
      in signatureLoop ss v2)"


section \<open>The enum tag extractor: the claim\<close>

lemma enumLoop_no_enum_tag:
  "\<forall>t \<in> set ts. tag t \<noteq> ''chrome-enum'' \<Longrightarrow> enumLoop JSON_parse ts enums = Inr enums"
  by (induction ts) (auto simp: Let_def)

text \<open>With no enum tag the result is the absent marker, not an empty list.\<close>

lemma processTagsForChromeEnum_absent:
  "\<forall>t \<in> set ts. tag t \<noteq> ''chrome-enum'' \<Longrightarrow> processTagsForChromeEnum JSON_parse ts = Inr None"
  by (simp add: processTagsForChromeEnum_def enumLoop_no_enum_tag)

text \<open>The two tags of the specification's scenario, whose values have no escape.\<close>

lemma processTagsForChromeEnum_scenario:
  \<open>JSON_parse ''"foo_bar"'' = Some v1 \<Longrightarrow> JSON_parse ''"baz"'' = Some v2 \<Longrightarrow>
   processTagsForChromeEnum JSON_parse
     [CommentTag ''chrome-enum'' ''"foo_bar" The Foo value'',
      CommentTag ''chrome-enum'' ''"baz" The Baz value'']
   = Inr (Some [(v1, ''The Foo value''), (v2, ''The Baz value'')])\<close>
  by (simp add: processTagsForChromeEnum_def trim_def isWhiteSpace_def firstSplitOnSpace_def)

text \<open>
  C8. The description is to be the text that follows the leading token and one space. The
  source cuts the text at \<^verbatim>\<open>raw.length + 1\<close>, where \<^verbatim>\<open>raw\<close> is the token \<^emph>\<open>after\<close> its
  backslash-underscore pairs have been turned into underscores, so it cuts one character
  early for every pair. With one pair the cut lands on the separating space, which the trim
  removes; with two pairs, as in the tag text \<^verbatim>\<open>"a\_b\_c" Desc\<close>, the closing quote of the
  token stays in the description.
\<close>

theorem enum_description_keeps_token_tail:
  \<open>JSON_parse ''"a_b_c"'' = Some v \<Longrightarrow>
   processTagsForChromeEnum JSON_parse
     [CommentTag ''chrome-enum'' (''"a'' @ [CHR 0x5C] @ ''_b'' @ [CHR 0x5C] @ ''_c" Desc'')]
   = Inr (Some [(v, ''" Desc'')])\<close>
  by (simp add: processTagsForChromeEnum_def trim_def isWhiteSpace_def firstSplitOnSpace_def)

theorem enum_description_keeps_token_tail_witness:
  \<open>parsePlainStringLiteral ''"a_b_c"'' = Some (JsonString ''a_b_c'')
   \<and> processTagsForChromeEnum parsePlainStringLiteral
     [CommentTag ''chrome-enum'' (''"a'' @ [CHR 0x5C] @ ''_b'' @ [CHR 0x5C] @ ''_c" Desc'')]
   = Inr (Some [(JsonString ''a_b_c'', ''" Desc'')])\<close>
proof -
  have p: \<open>parsePlainStringLiteral ''"a_b_c"'' = Some (JsonString ''a_b_c'')\<close>
    by (simp add: parsePlainStringLiteral_def)
  from enum_description_keeps_token_tail[of parsePlainStringLiteral, OF p] p
  show ?thesis by simp
qed

section \<open>Merging the parameters of call signatures: the claim\<close>

text \<open>
  Every parameter the loop meets, in the order it meets them, with the comment tags of the
  signature it stands in.
\<close>

definition occurrences :: "signature list \<Rightarrow> (commentTag list \<times> node) list" where
  "occurrences ss =
     concat (map (\<lambda>s. map (\<lambda>p. (tagsOf (sigComment s), p))
                        (case parameters s of Some ps \<Rightarrow> ps | None \<Rightarrow> [])) ss)"


text \<open>One iteration of the inner loop, on one occurrence.\<close>

definition paramStep :: "(string \<times> node) list \<Rightarrow> commentTag list \<times> node \<Rightarrow> (string \<times> node) list" where
  "paramStep ap oc =
     (if map_of ap (name (snd oc)) = None \<or> isOptional (snd oc)
      then mapSet (name (snd oc)) (upgradeParamWithParamSinceTags (snd oc) (fst oc)) ap
      else ap)"

lemma paramLoop_foldl: "paramLoop ts ps ap = foldl paramStep ap (map (Pair ts) ps)"
  by (induction ps arbitrary: ap) (simp_all add: paramStep_def)

lemma signatureLoop_allParams:
  "allParams (signatureLoop ss v) = foldl paramStep (allParams v) (occurrences ss)"
proof (induction ss arbitrary: v)
  case Nil
  then show ?case by (simp add: occurrences_def)
next
  case (Cons s ss)
  have "allParams (signatureLoop (s # ss) v) =
        foldl paramStep
          (paramLoop (tagsOf (sigComment s))
             (case parameters s of Some ps \<Rightarrow> ps | None \<Rightarrow> []) (allParams v))
          (occurrences ss)"
    by (simp add: Cons.IH Let_def split: option.splits)
  then show ?case
    by (simp add: paramLoop_foldl occurrences_def comp_def)
qed




lemma upgradeParam_name [simp]: "name (upgradeParamWithParamSinceTags p ts) = name p"
  and upgradeParam_isOptional [simp]:
    "isOptional (upgradeParamWithParamSinceTags p ts) = isOptional p"
  and upgradeParam_nid [simp]: "nid (upgradeParamWithParamSinceTags p ts) = nid p"
  by (simp_all add: upgradeParamWithParamSinceTags_def appendCommentTags_def set_comment_def Let_def)













text \<open>
  \<^verbatim>\<open>declarationWith(node)\<close>: the node itself, unless its type is a reflection that points to a
  declaration.
\<close>

fun declarationWith :: "node \<Rightarrow> node" where
  "declarationWith (Node i nm k ch (Some (Reflection (Some d))) sg c opt e) = declarationWith d"
| "declarationWith n = n"

text \<open>
  An assignment to a field of \<^verbatim>\<open>effectiveDeclarationNode\<close> changes the declaration where it
  stands, inside the node.
\<close>

fun mapDeclaration :: "(node \<Rightarrow> node) \<Rightarrow> node \<Rightarrow> node" where
  "mapDeclaration f (Node i nm k ch (Some (Reflection (Some d))) sg c opt e) =
     Node i nm k ch (Some (Reflection (Some (mapDeclaration f d)))) sg c opt e"
| "mapDeclaration f n = f n"

text \<open>
  The size of the TypeDoc part of a node (its children, type and signatures), by which the
  walk terminates. A type counts one more for every member the walker wraps in a virtual
  node, and a signature one more for the virtual return node.
\<close>

fun nsize :: "node \<Rightarrow> nat" and tsize :: "ty \<Rightarrow> nat" and ssize :: "signature \<Rightarrow> nat" where
  "nsize (Node i nm k ch t sg c opt e) =
     1 + (case ch of None \<Rightarrow> 0 | Some cs \<Rightarrow> sum_list (map nsize cs))
       + (case t of None \<Rightarrow> 0 | Some t' \<Rightarrow> tsize t')
       + (case sg of None \<Rightarrow> 0 | Some ss \<Rightarrow> sum_list (map ssize ss))"
| "tsize (Reference i nm targs) =
     1 + (case targs of None \<Rightarrow> 0 | Some ts \<Rightarrow> sum_list (map (\<lambda>t. 1 + tsize t) ts))"
| "tsize (Reflection d) = 1 + (case d of None \<Rightarrow> 0 | Some n \<Rightarrow> nsize n)"
| "tsize (Union ts) = 1 + sum_list (map (\<lambda>t. 1 + tsize t) ts)"
| "tsize (Intersection ts) = 1 + sum_list (map (\<lambda>t. 1 + tsize t) ts)"
| "tsize (Array t) = 2 + tsize t"
| "tsize (Tuple es) =
     1 + (case es of None \<Rightarrow> 0 | Some ts \<Rightarrow> sum_list (map (\<lambda>t. 1 + tsize t) ts))"
| "tsize (Intrinsic nm) = 1"
| "tsize (OtherType nm) = 1"
| "ssize (Signature ps t c) =
     1 + (case ps of None \<Rightarrow> 0 | Some xs \<Rightarrow> sum_list (map nsize xs))
       + (case t of None \<Rightarrow> 0 | Some t' \<Rightarrow> 1 + tsize t')"

section \<open>The state of a run\<close>

text \<open>
  The fields of \<^verbatim>\<open>Transform\<close>. \<^verbatim>\<open>namespaces\<close> is an object whose values are enumerated in
  insertion order (for keys that are not array indices): an association list, written with
  \<^const>\<open>mapSet\<close>. \<^verbatim>\<open>indexForReferences\<close> and \<^verbatim>\<open>allByName\<close> are only looked up by key: maps.

  JavaScript stores a reference to the node object in these indices, and goes on writing to
  the object afterwards. The model stores the node as it stands when it is stored: an entry
  tells which node it is (its id, its name, its qualified name and page), not what the walk
  adds to the node later.
\<close>

record state =
  namespaces :: "(string \<times> node) list"
  pendingReferences :: "node list"
  indexForReferences :: "int \<rightharpoonup> node"
  allByName :: "string \<rightharpoonup> node"

section \<open>The tree walker\<close>

text \<open>
  \<^verbatim>\<open>walk(node, parent, namespace)\<close> is one long function with four loops that call it again:
  over the nodes the event upgrader returns, over the non-namespace children, over the merged
  parameters (and the virtual return node), and over the virtual nodes of the member types.
  Each loop stands inside a condition in the source; a loop over an empty list does nothing,
  so the model runs the four loops one after the other, each over the list its block would
  walk (empty when the block is skipped), and the definitions below compute these lists and
  what each block writes to the node.

  \<^verbatim>\<open>node.type?.type === 'reference'\<close>, and the name of the reference.
\<close>

definition referenceName :: "node \<Rightarrow> string option" where
  "referenceName n = (case ntype n of Some (Reference rid rname targs) \<Rightarrow> Some rname | _ \<Rightarrow> None)"

text \<open>
  The array the event upgrader stored in \<^verbatim>\<open>_method.parameters\<close> is the one the walker then
  walks: after the loop its elements are the walked nodes.
\<close>

definition setMethodParameters :: "node list \<Rightarrow> node \<Rightarrow> node" where
  "setMethodParameters ps n =
     (case ext_method (ext n) of
        Some m \<Rightarrow> set_method (Some (MethodInfo ps (methodReturn m) (isReturnsAsync m))) n
      | None \<Rightarrow> n)"

definition eventNode :: "bool \<Rightarrow> node list \<Rightarrow> node \<Rightarrow> node" where
  "eventNode shared ps n = (if shared then setMethodParameters ps n else n)"

text \<open>
  Lines 278 to 291: a reference to an event type is upgraded (its nodes are walked next and
  the prefix becomes \<^verbatim>\<open>event\<close>), any other reference is queued in \<^verbatim>\<open>pendingReferences\<close>.
\<close>

definition referencePhase :: "node \<Rightarrow> state \<Rightarrow> string
    \<Rightarrow> error + (node \<times> state \<times> string \<times> node list \<times> bool)" where
  "referencePhase n st nodePrefix =
     (case referenceName n of
        Some rname \<Rightarrow>
          if rname \<in> set chromeEventRefTypes then
            (case upgradeEventNode n of
               Inl e \<Rightarrow> Inl e
             | Inr (n', cs, shared) \<Rightarrow> Inr (n', st, ''event'', cs, shared))
          else Inr (n, st\<lparr>pendingReferences := pendingReferences st @ [n]\<rparr>, nodePrefix, [], False)
      | None \<Rightarrow> Inr (n, st, nodePrefix, [], False))"

text \<open>
  Lines 297 to 311: the children of the effective declaration that are not namespaces; the
  declaration loses its children, and the node gets them as \<^verbatim>\<open>_type.properties\<close> when
  there are any.
\<close>

definition structuralChildren :: "node \<Rightarrow> node list" where
  "structuralChildren n =
     (case children (declarationWith n) of
        Some cs \<Rightarrow> filter (\<lambda>c. kind c \<noteq> Namespace) cs
      | None \<Rightarrow> [])"

definition detachChildren :: "node \<Rightarrow> node" where
  "detachChildren n =
     (case children (declarationWith n) of
        Some (c # cs) \<Rightarrow> mapDeclaration (set_children (Some [])) n
      | _ \<Rightarrow> n)"

definition propertiesNode :: "node list \<Rightarrow> node \<Rightarrow> node" where
  "propertiesNode properties n =
     (if structuralChildren n \<noteq> [] then set_type (Some properties) (detachChildren n)
      else detachChildren n)"

text \<open>
  Lines 314 to 395: \<^verbatim>\<open>effectiveDeclarationNode.signatures\<close>, the variables after the loop over
  them, the comment hoisted onto the node, the virtual return node, and the list the block
  walks (\<^verbatim>\<open>parameters\<close> after the \<^verbatim>\<open>push\<close>).
\<close>

definition callSignatures :: "node \<Rightarrow> signature list" where
  "callSignatures n = (case signatures (declarationWith n) of Some ss \<Rightarrow> ss | None \<Rightarrow> [])"

definition initialVars :: "comment option \<Rightarrow> signatureVars" where
  "initialVars c = \<lparr>allParams = [], nodeComment = c, returnSignatureComment = None, returnType = None\<rparr>"

definition methodVars :: "node \<Rightarrow> signatureVars" where
  "methodVars n = signatureLoop (callSignatures n) (initialVars (comment (declarationWith n)))"

definition hoistedComment :: "node \<Rightarrow> comment option" where
  "hoistedComment n =
     (case nodeComment (methodVars n) of
        Some c \<Rightarrow> Some c
      | None \<Rightarrow> (case callSignatures n of s # ss \<Rightarrow> sigComment s | [] \<Rightarrow> None))"

definition returnNode :: "node \<Rightarrow> node option" where
  "returnNode n =
     (case returnType (methodVars n) of
        None \<Rightarrow> None
      | Some rt \<Rightarrow>
          (let virtualNode0 = virtualNode ''return'' Parameter (Some rt);
               virtualNode1 =
                 (case hoistedComment n of
                    Some c \<Rightarrow>
                      (case returns c of
                         Some r \<Rightarrow>
                           if r \<noteq> []
                           then set_comment (Some (Comment (Some r) None None None)) virtualNode0
                           else virtualNode0
                       | None \<Rightarrow> virtualNode0)
                  | None \<Rightarrow> virtualNode0)
           in Some (upgradeReturnWithReturnSinceTags virtualNode1
                      (tagsOf (returnSignatureComment (methodVars n))))))"

definition returnsPromise :: "node \<Rightarrow> bool" where
  "returnsPromise n =
     (case returnType (methodVars n) of
        Some (Reference rid rname targs) \<Rightarrow> rname = ''Promise''
      | _ \<Rightarrow> False)"

definition methodWalkList :: "node \<Rightarrow> node list" where
  "methodWalkList n =
     (if callSignatures n = [] then []
      else map snd (allParams (methodVars n))
           @ (case returnNode n of Some vn \<Rightarrow> [vn] | None \<Rightarrow> []))"

text \<open>
  What the block writes: \<^verbatim>\<open>node.comment\<close>, the emptied \<^verbatim>\<open>signatures\<close>, and \<^verbatim>\<open>_method\<close> with
  the walked parameters and, when there is a return type, the walked return node (the last
  of the list).
\<close>

definition methodNode :: "node list \<Rightarrow> node \<Rightarrow> node" where
  "methodNode ps n =
     (if callSignatures n = [] then n
      else
        (let n' = set_comment (hoistedComment n) (mapDeclaration (set_signatures (Some [])) n)
         in case returnNode n of
              Some vn \<Rightarrow>
                set_method (Some (MethodInfo (butlast ps) (Some (last ps)) (returnsPromise n))) n'
            | None \<Rightarrow> set_method (Some (MethodInfo ps None False)) n'))"

text \<open>
  Lines 400 to 446: the member types \<^verbatim>\<open>types\<close>, \<^verbatim>\<open>elements\<close>, \<^verbatim>\<open>elementType\<close> and
  \<^verbatim>\<open>typeArguments\<close> of the effective type, each wrapped in a virtual type alias; the
  properties of the walked virtual nodes are hoisted when the type has \<^verbatim>\<open>types\<close> or
  \<^verbatim>\<open>elementType\<close>. What the walk writes into a declaration nested in a member type shows
  in the walked virtual node only.
\<close>

definition allTypes :: "ty option \<Rightarrow> ty list" where
  "allTypes t =
     (case t of
        Some (Union ts) \<Rightarrow> ts
      | Some (Intersection ts) \<Rightarrow> ts
      | Some (Tuple (Some es)) \<Rightarrow> es
      | Some (Array e) \<Rightarrow> [e]
      | Some (Reference rid rname (Some targs)) \<Rightarrow> targs
      | _ \<Rightarrow> [])"

definition hoistProperties :: "ty option \<Rightarrow> bool" where
  "hoistProperties t =
     (case t of Some (Union ts) \<Rightarrow> True | Some (Intersection ts) \<Rightarrow> True
      | Some (Array e) \<Rightarrow> True | _ \<Rightarrow> False)"

definition typeWalkList :: "node \<Rightarrow> node list" where
  "typeWalkList n =
     (if ext_event (ext n) = None
      then map (\<lambda>t. virtualNode (name (declarationWith n)) TypeAlias (Some t))
             (allTypes (ntype (declarationWith n)))
      else [])"

definition hoistInnerProperties :: "node list \<Rightarrow> node \<Rightarrow> node" where
  "hoistInnerProperties vs n =
     (let innerProperties =
            (if ext_event (ext n) = None \<and> hoistProperties (ntype (declarationWith n))
             then concat (map (\<lambda>v. case ext_type (ext v) of Some ps \<Rightarrow> ps | None \<Rightarrow> []) vs)
             else [])
      in if innerProperties \<noteq> [] then set_type (Some innerProperties) n else n)"

text \<open>
  Lines 448 to 467: the feature and enum tags of the effective comment, and the page id of a
  node that has a parent. \<^verbatim>\<open>namespace._name.length\<close> throws when the namespace has no
  \<^verbatim>\<open>_name\<close>.
\<close>

definition finishNode :: "(string \<Rightarrow> jsonValue option) \<Rightarrow> node \<Rightarrow> node option \<Rightarrow> node
    \<Rightarrow> string \<Rightarrow> error + node" where
  "finishNode JSON_parse n parent namespace nodePrefix =
     (let effectiveComment = (case comment (declarationWith n) of
                                Some c \<Rightarrow> Some c | None \<Rightarrow> comment n);
          effectiveTags = tagsOf effectiveComment;
          n1 = set_feature (Some (processTagsToFeature effectiveTags)) n
      in case processTagsForChromeEnum JSON_parse effectiveTags of
           Inl e \<Rightarrow> Inl e
         | Inr maybeEnumPairs \<Rightarrow>
             (let n2 = (case maybeEnumPairs of Some es \<Rightarrow> set_enums (Some es) n1 | None \<Rightarrow> n1)
              in case parent of
                   None \<Rightarrow> Inr n2
                 | Some p \<Rightarrow>
                     (case ext_name (ext namespace) of
                        None \<Rightarrow> Inl TypeError
                      | Some namespaceName \<Rightarrow>
                          (let pageIdPart = drop (length namespaceName + 1) (str (ext_name (ext n2)))
                           in Inr (set_pageId
                                     (Some (nodePrefix @ ''-''
                                            @ replaceAllChar CHR ''.'' CHR ''-'' pageIdPart))
                                     n2)))))"

text \<open>
  Lines 267 to 276: the qualified name and the page of a node that has a parent, and the two
  indices.
\<close>

definition placeNode :: "node \<Rightarrow> node option \<Rightarrow> node \<Rightarrow> node" where
  "placeNode node parent namespace =
     (case parent of
        Some p \<Rightarrow>
          set_pageHref (ext_pageHref (ext namespace))
            (set_name (Some (str (ext_name (ext p)) @ ''.'' @ name node)) node)
      | None \<Rightarrow> node)"

definition indexNode :: "state \<Rightarrow> node \<Rightarrow> node option \<Rightarrow> state" where
  "indexNode st n parent =
     (let st1 = (case parent of
                   Some p \<Rightarrow> st\<lparr>allByName := (allByName st)(str (ext_name (ext n)) \<mapsto> n)\<rparr>
                 | None \<Rightarrow> st)
      in if nid n > 0
         then st1\<lparr>indexForReferences := (indexForReferences st1)(nid n \<mapsto> n)\<rparr>
         else st1)"


subsection \<open>The walk lists are smaller than the node\<close>

lemma nsize_pos [simp]: "0 < nsize n"
  by (cases n) simp

lemma nsize_sel:
  "nsize n = 1 + (case children n of None \<Rightarrow> 0 | Some cs \<Rightarrow> sum_list (map nsize cs))
       + (case ntype n of None \<Rightarrow> 0 | Some t' \<Rightarrow> tsize t')
       + (case signatures n of None \<Rightarrow> 0 | Some ss \<Rightarrow> sum_list (map ssize ss))"
  by (cases n) simp

lemma nsize_set_ext [simp]: "nsize (set_ext e n) = nsize n"
  and nsize_set_comment [simp]: "nsize (set_comment c n) = nsize n"
  by (cases n; simp add: set_ext_def set_comment_def)+

lemma nsize_ext_setters [simp]:
  "nsize (set_name a n) = nsize n"
  "nsize (set_pageHref a n) = nsize n"
  "nsize (set_pageId a n) = nsize n"
  "nsize (set_type b n) = nsize n"
  "nsize (set_method c n) = nsize n"
  "nsize (set_event d n) = nsize n"
  "nsize (set_feature f n) = nsize n"
  "nsize (set_enums g n) = nsize n"
  by (simp_all add: ext_setter_defs Let_def)

lemma nsize_set_children_empty: "nsize (set_children (Some []) n) \<le> nsize n"
  by (cases n) (simp add: set_children_def)

lemma nsize_set_signatures_empty: "nsize (set_signatures (Some []) n) \<le> nsize n"
  by (cases n) (simp add: set_signatures_def)

lemma nsize_mapDeclaration:
  "(\<And>m. nsize (f m) \<le> nsize m) \<Longrightarrow> nsize (mapDeclaration f n) \<le> nsize n"
proof (induction f n rule: mapDeclaration.induct)
  case (1 f i nm k ch d sg c opt e)
  then show ?case by simp
qed (simp_all only: mapDeclaration.simps)

lemma nsize_declarationWith: "nsize (declarationWith n) \<le> nsize n"
  by (induction n rule: declarationWith.induct) simp_all

lemma sum_filter_le: "sum_list (map f (filter P xs)) \<le> sum_list (map (f :: 'a \<Rightarrow> nat) xs)"
  by (induction xs) auto

lemma structuralChildren_size: "sum_list (map nsize (structuralChildren n)) < nsize n"
proof -
  have "sum_list (map nsize (structuralChildren n)) < nsize (declarationWith n)"
  proof (cases "children (declarationWith n)")
    case None
    then show ?thesis by (simp add: structuralChildren_def)
  next
    case (Some cs)
    have "sum_list (map nsize cs) < nsize (declarationWith n)"
      using Some by (simp add: nsize_sel[of "declarationWith n"])
    with sum_filter_le[of nsize "\<lambda>c. kind c \<noteq> Namespace" cs] Some show ?thesis
      by (simp add: structuralChildren_def)
  qed
  with nsize_declarationWith[of n] show ?thesis by simp
qed

lemma nsize_detachChildren: "nsize (detachChildren n) \<le> nsize n"
  by (auto simp: detachChildren_def nsize_mapDeclaration nsize_set_children_empty
      split: option.splits list.splits)

lemma nsize_propertiesNode: "nsize (propertiesNode ps n) \<le> nsize n"
  by (simp add: propertiesNode_def nsize_detachChildren)

lemma nsize_setMethodParameters [simp]: "nsize (setMethodParameters ps n) = nsize n"
  by (simp add: setMethodParameters_def split: option.splits)

lemma nsize_eventNode [simp]: "nsize (eventNode shared ps n) = nsize n"
  by (simp add: eventNode_def)

lemma nsize_placeNode [simp]: "nsize (placeNode node parent namespace) = nsize node"
  by (simp add: placeNode_def split: option.splits)

lemma nsize_methodNode: "nsize (methodNode ps n) \<le> nsize n"
  by (auto simp: methodNode_def Let_def nsize_mapDeclaration nsize_set_signatures_empty
      split: option.splits)

lemma nsize_virtualNode [simp]: "nsize (virtualNode nm k (Some t)) = 1 + tsize t"
  by (simp add: virtualNode_def)

lemma nsize_appendCommentTags [simp]: "nsize (appendCommentTags ts p) = nsize p"
  by (simp add: appendCommentTags_def Let_def)

lemma nsize_upgradeParam [simp]: "nsize (upgradeParamWithParamSinceTags p ts) = nsize p"
  by (simp add: upgradeParamWithParamSinceTags_def)

lemma nsize_upgradeReturn [simp]: "nsize (upgradeReturnWithReturnSinceTags p ts) = nsize p"
  by (simp add: upgradeReturnWithReturnSinceTags_def)

text \<open>The walk list of the types.\<close>

lemma allTypes_size:
  "sum_list (map (\<lambda>t'. Suc (tsize t')) (allTypes (Some t))) < tsize t"
  by (cases t) (auto simp: allTypes_def split: option.splits)

lemma typeWalkList_size: "sum_list (map nsize (typeWalkList n)) < nsize n"
proof -
  have "sum_list (map nsize (typeWalkList n)) < nsize (declarationWith n)"
  proof (cases "ntype (declarationWith n)")
    case None
    then show ?thesis by (simp add: typeWalkList_def allTypes_def)
  next
    case (Some t)
    with allTypes_size[of t] show ?thesis
      by (simp add: typeWalkList_def nsize_sel[of "declarationWith n"] comp_def)
  qed
  with nsize_declarationWith[of n] show ?thesis by simp
qed

text \<open>The walk list of the event upgrader.\<close>

lemma ensureArrayOfType_size:
  "sum_list (map (\<lambda>t'. Suc (tsize t')) (ensureArrayOfType t)) \<le> Suc (tsize t)"
  by (cases t) (simp_all add: ensureArrayOfType_def)

definition psum :: "signature \<Rightarrow> nat" where
  "psum s = (case parameters s of None \<Rightarrow> 0 | Some ps \<Rightarrow> sum_list (map nsize ps))"

lemma ssize_sel:
  "ssize s = 1 + psum s + (case sigType s of None \<Rightarrow> 0 | Some t \<Rightarrow> 1 + tsize t)"
  by (cases s) (simp add: psum_def)

lemma firstSignatureParameters_size:
  "sum_list (map nsize (firstSignatureParameters t)) < tsize t"
proof (cases t)
  case (Reflection d)
  show ?thesis
  proof (cases d)
    case None
    with Reflection show ?thesis by (simp add: firstSignatureParameters_def)
  next
    case (Some dn)
    have "sum_list (map nsize (firstSignatureParameters t)) < nsize dn"
      using Reflection Some
      by (auto simp: firstSignatureParameters_def nsize_sel[of dn] ssize_sel psum_def
          split: option.splits list.splits)
    with Reflection Some show ?thesis by simp
  qed
qed (simp_all add: firstSignatureParameters_def)

lemma upgradeEventNode_size:
  assumes "upgradeEventNode n = Inr (n', cs, shared)"
  shows "sum_list (map nsize cs) < nsize n \<and> nsize n' = nsize n"
proof -
  from assms obtain rid rname targs where t: "ntype n = Some (Reference rid rname targs)"
    by (auto simp: upgradeEventNode_def split: option.splits ty.splits)
  from assms t obtain a0 more where ta: "targs = Some (a0 # more)"
    by (auto simp: upgradeEventNode_def split: option.splits list.splits)
  have n: "nsize n \<ge> 2 + (Suc (tsize a0) + sum_list (map (\<lambda>t'. Suc (tsize t')) more))"
    using t ta by (simp add: nsize_sel[of n])
  show ?thesis
  proof (cases "rname = ''CustomChromeEvent''")
    case True
    with assms t ta have "cs = firstSignatureParameters a0" "nsize n' = nsize n"
      by (auto simp: upgradeEventNode_def Let_def)
    with firstSignatureParameters_size[of a0] n show ?thesis by simp
  next
    case False
    show ?thesis
    proof (cases "\<exists>iname. a0 = Intrinsic iname")
      case True
      then obtain iname where i: "a0 = Intrinsic iname" by blast
      from assms t ta False i obtain a1 a2 rest where
        m: "more = a1 # a2 # rest" and
        c: "cs = map (\<lambda>t. virtualNode ''_declarative-fake'' TypeAlias (Some t))
                  (ensureArrayOfType a1 @ ensureArrayOfType a2)" and
        e: "nsize n' = nsize n"
        by (auto simp: upgradeEventNode_def Let_def split: if_splits list.splits)
      have "sum_list (map nsize cs)
          = sum_list (map (\<lambda>t'. Suc (tsize t')) (ensureArrayOfType a1))
            + sum_list (map (\<lambda>t'. Suc (tsize t')) (ensureArrayOfType a2))"
        by (simp add: c comp_def)
      with ensureArrayOfType_size[of a1] ensureArrayOfType_size[of a2] n m e
      show ?thesis by simp
    next
      case nI: False
      with assms t ta False have "cs = [virtualNode ''callback'' Parameter (Some a0)]"
          "nsize n' = nsize n"
        by (cases a0; auto simp: upgradeEventNode_def Let_def)+
      with n show ?thesis by simp
    qed
  qed
qed

lemma referencePhase_size:
  assumes "referencePhase n st pfx = Inr (n1, st1, pfx1, cs, shared)"
  shows "sum_list (map nsize cs) < nsize n \<and> nsize n1 = nsize n"
  using assms upgradeEventNode_size[of n]
  by (auto simp: referencePhase_def split: option.splits if_splits sum.splits)

text \<open>The walk list of the signatures.\<close>

lemma sum_mapSet:
  "sum_list (map (\<lambda>a. nsize (snd a)) (mapSet k v al)) \<le> sum_list (map (\<lambda>a. nsize (snd a)) al) + nsize v"
  by (induction al) auto

lemma sum_paramStep:
  "sum_list (map (\<lambda>a. nsize (snd a)) (paramStep ap oc))
     \<le> sum_list (map (\<lambda>a. nsize (snd a)) ap) + nsize (snd oc)"
  using sum_mapSet[of "name (snd oc)" "upgradeParamWithParamSinceTags (snd oc) (fst oc)" ap]
  by (simp add: paramStep_def)

lemma sum_foldl_paramStep:
  "sum_list (map (\<lambda>a. nsize (snd a)) (foldl paramStep ap occ))
     \<le> sum_list (map (\<lambda>a. nsize (snd a)) ap) + sum_list (map (\<lambda>a. nsize (snd a)) occ)"
proof (induction occ arbitrary: ap)
  case Nil
  then show ?case by simp
next
  case (Cons oc occ)
  from Cons.IH[of "paramStep ap oc"] sum_paramStep[of ap oc] show ?case by simp
qed

lemma sum_occurrences:
  "sum_list (map (\<lambda>a. nsize (snd a)) (occurrences ss)) = sum_list (map psum ss)"
  by (induction ss) (auto simp: occurrences_def psum_def comp_def split: option.splits)

lemma signatureLoop_returnType:
  "returnType (signatureLoop ss v) = Some rt \<Longrightarrow>
   returnType v = Some rt \<or> (\<exists>s \<in> set ss. sigType s = Some rt)"
proof (induction ss arbitrary: v)
  case Nil
  then show ?case by simp
next
  case (Cons s ss)
  from Cons.prems show ?case
    by (auto simp: Let_def split: option.splits if_splits dest!: Cons.IH)
qed

lemma psum_le_ssize: "sum_list (map psum ss) + length ss \<le> sum_list (map ssize ss)"
  by (induction ss) (auto simp: ssize_sel)

lemma psum_return_le_ssize:
  "s \<in> set ss \<Longrightarrow> sigType s = Some rt \<Longrightarrow>
   sum_list (map psum ss) + Suc (tsize rt) < sum_list (map ssize ss)"
proof (induction ss)
  case Nil
  then show ?case by simp
next
  case (Cons a ss)
  show ?case
  proof (cases "s = a")
    case True
    with Cons.prems psum_le_ssize[of ss] show ?thesis by (simp add: ssize_sel[of a])
  next
    case False
    with Cons show ?thesis by (simp add: ssize_sel[of a])
  qed
qed

lemma methodWalkList_size: "sum_list (map nsize (methodWalkList n)) < nsize n"
proof -
  define ss where "ss = callSignatures n"
  define v where "v = methodVars n"
  have p: "sum_list (map nsize (map snd (allParams v))) \<le> sum_list (map psum ss)"
    using sum_foldl_paramStep[of "[]" "occurrences ss"]
    by (simp add: v_def methodVars_def ss_def signatureLoop_allParams initialVars_def
        sum_occurrences comp_def)
  have e: "sum_list (map ssize ss) < nsize (declarationWith n)"
    by (simp add: ss_def callSignatures_def nsize_sel[of "declarationWith n"] split: option.splits)
  have "sum_list (map nsize (methodWalkList n)) < nsize (declarationWith n)"
  proof (cases "returnNode n")
    case None
    with p e psum_le_ssize[of ss] show ?thesis
      by (simp add: methodWalkList_def v_def ss_def)
  next
    case (Some vn)
    then obtain rt where rt: "returnType v = Some rt" and vn: "nsize vn = Suc (tsize rt)"
      by (auto simp: returnNode_def v_def Let_def split: option.splits if_splits)
    from rt obtain s where "s \<in> set ss" "sigType s = Some rt"
      using signatureLoop_returnType[of ss "initialVars (comment (declarationWith n))" rt]
      by (auto simp: v_def methodVars_def ss_def initialVars_def)
    from psum_return_le_ssize[OF this] p e Some vn show ?thesis
      by (simp add: methodWalkList_def v_def ss_def)
  qed
  with nsize_declarationWith[of n] show ?thesis by simp
qed

lemma nsize_propertiesNode_le: "nsize n \<le> k \<Longrightarrow> nsize (propertiesNode ps n) \<le> k"
  using nsize_propertiesNode[of ps n] by simp

lemma nsize_methodNode_le: "nsize n \<le> k \<Longrightarrow> nsize (methodNode ps n) \<le> k"
  using nsize_methodNode[of ps n] by simp

lemma walk_measure_children:
  "nsize m \<le> k \<Longrightarrow> Suc (2 * sum_list (map nsize (structuralChildren m))) < 2 * k"
  using structuralChildren_size[of m] by simp

lemma walk_measure_method:
  "nsize m \<le> k \<Longrightarrow> Suc (2 * sum_list (map nsize (methodWalkList m))) < 2 * k"
  using methodWalkList_size[of m] by simp

lemma walk_measure_types:
  "nsize m \<le> k \<Longrightarrow> Suc (2 * sum_list (map nsize (typeWalkList m))) < 2 * k"
  using typeWalkList_size[of m] by simp

subsection \<open>The walk\<close>

text \<open>Lines 261 to 264: the prefix of the page id, before the blocks change it.\<close>

definition nodePrefix0 :: "node \<Rightarrow> string" where
  "nodePrefix0 node = (if VariableOrProperty (kind node) then ''property'' else ''type'')"

function walk :: "(string \<Rightarrow> jsonValue option) \<Rightarrow> state \<Rightarrow> node \<Rightarrow> node option \<Rightarrow> node
      \<Rightarrow> error + (node \<times> state)"
  and walkAll :: "(string \<Rightarrow> jsonValue option) \<Rightarrow> state \<Rightarrow> node list \<Rightarrow> node \<Rightarrow> node
      \<Rightarrow> error + (node list \<times> state)" where
  "walk JSON_parse st node parent namespace =
     (let n0 = placeNode node parent namespace in
      case referencePhase n0 (indexNode st n0 parent) (nodePrefix0 node) of
        Inl e \<Rightarrow> Inl e
      | Inr (n1, st1, nodePrefix1, eventChildren, shared) \<Rightarrow>
     (case walkAll JSON_parse st1 eventChildren n1 namespace of
        Inl e \<Rightarrow> Inl e
      | Inr (eventChildren', st2) \<Rightarrow>
     (let n2 = eventNode shared eventChildren' n1;
          cs = structuralChildren n2 in
      case walkAll JSON_parse st2 cs (propertiesNode cs n2) namespace of
        Inl e \<Rightarrow> Inl e
      | Inr (properties, st3) \<Rightarrow>
     (let n3 = propertiesNode properties n2;
          params = methodWalkList n3 in
      case walkAll JSON_parse st3 params (methodNode params n3) namespace of
        Inl e \<Rightarrow> Inl e
      | Inr (params', st4) \<Rightarrow>
     (let n4 = methodNode params' n3;
          nodePrefix4 = (if callSignatures n3 = [] then nodePrefix1 else ''method'') in
      case walkAll JSON_parse st4 (typeWalkList n4) n4 namespace of
        Inl e \<Rightarrow> Inl e
      | Inr (virtualNodes, st5) \<Rightarrow>
     (case finishNode JSON_parse (hoistInnerProperties virtualNodes n4) parent namespace
             nodePrefix4 of
        Inl e \<Rightarrow> Inl e
      | Inr n5 \<Rightarrow> Inr (n5, st5)))))))"
| "walkAll JSON_parse st [] parent namespace = Inr ([], st)"
| "walkAll JSON_parse st (c # cs) parent namespace =
     (case walk JSON_parse st c (Some parent) namespace of
        Inl e \<Rightarrow> Inl e
      | Inr (c', st1) \<Rightarrow>
          (case walkAll JSON_parse st1 cs parent namespace of
             Inl e \<Rightarrow> Inl e
           | Inr (cs', st2) \<Rightarrow> Inr (c' # cs', st2)))"
  by pat_completeness auto

termination
proof (relation "measure (\<lambda>x. case x of
          Inl (P, st, node, parent, ns) \<Rightarrow> 2 * nsize node
        | Inr (P, st, nodes, parent, ns) \<Rightarrow> 2 * sum_list (map nsize nodes) + 1)",
      goal_cases)
  case 1
  then show ?case by simp
next
  case (2 JSON_parse st node parent namespace n0 x n1 y st1 z nodePrefix1 w eventChildren shared)
  then show ?case
    by (auto dest: referencePhase_size)
next
  case 3
  then show ?case
    by (auto dest!: referencePhase_size intro!: walk_measure_children)
next
  case 4
  then show ?case
    by (auto dest!: referencePhase_size
        intro!: walk_measure_method nsize_propertiesNode_le)
next
  case 5
  then show ?case
    by (auto dest!: referencePhase_size
        intro!: walk_measure_types nsize_methodNode_le nsize_propertiesNode_le)
next
  case 6 then show ?case by simp
next
  case 7 then show ?case by simp
qed

declare walk.simps [simp del]

text \<open>
  A walk that returns, read off the definition: the result of every block, in order. And
  the induction that follows the calls of the walk.
\<close>

lemma case_sum_Inr_iff:
  "(case x of Inl e \<Rightarrow> Inl e | Inr v \<Rightarrow> f v) = Inr r \<longleftrightarrow> (\<exists>v. x = Inr v \<and> f v = Inr r)"
  by (cases x) auto

lemma walk_Inr_iff:
  "walk P st node parent ns = Inr (n', st') \<longleftrightarrow>
   (\<exists>n1 st1 pfx1 ec sh ec' st2 props st3 params' st4 vs.
      referencePhase (placeNode node parent ns) (indexNode st (placeNode node parent ns) parent)
          (nodePrefix0 node) = Inr (n1, st1, pfx1, ec, sh)
    \<and> walkAll P st1 ec n1 ns = Inr (ec', st2)
    \<and> walkAll P st2 (structuralChildren (eventNode sh ec' n1))
          (propertiesNode (structuralChildren (eventNode sh ec' n1)) (eventNode sh ec' n1)) ns
        = Inr (props, st3)
    \<and> walkAll P st3 (methodWalkList (propertiesNode props (eventNode sh ec' n1)))
          (methodNode (methodWalkList (propertiesNode props (eventNode sh ec' n1)))
             (propertiesNode props (eventNode sh ec' n1))) ns
        = Inr (params', st4)
    \<and> walkAll P st4
          (typeWalkList (methodNode params' (propertiesNode props (eventNode sh ec' n1))))
          (methodNode params' (propertiesNode props (eventNode sh ec' n1))) ns
        = Inr (vs, st')
    \<and> finishNode P
          (hoistInnerProperties vs (methodNode params' (propertiesNode props (eventNode sh ec' n1))))
          parent ns
          (if callSignatures (propertiesNode props (eventNode sh ec' n1)) = [] then pfx1
           else ''method'')
        = Inr n')"
  unfolding walk.simps[of P st node parent ns] Let_def
  by (simp add: case_sum_Inr_iff split_beta)




section \<open>The namespace locator and the run\<close>

text \<open>
  \<^verbatim>\<open>_name.replace(/^chrome\./, '')\<close>.
\<close>

definition stripChromePrefix :: "string \<Rightarrow> string" where
  "stripChromePrefix s = (if startsWith s ''chrome.'' then drop (length ''chrome.'') s else s)"

text \<open>
  The local \<^verbatim>\<open>traverse(node, parent)\<close> of \<^verbatim>\<open>findNamespaceRoots\<close> and its loop over the children;
  \<open>parent = None\<close> is the project. The loop returns the children as it leaves them and the
  flag \<^verbatim>\<open>hasOnlyNamespaces\<close>.
\<close>

function traverse :: "state \<Rightarrow> node \<Rightarrow> node option \<Rightarrow> node \<times> state"
  and traverseChildren :: "state \<Rightarrow> node list \<Rightarrow> node \<Rightarrow> node list \<times> bool \<times> state" where
  "traverse st node parent =
     (let n1 = set_name (Some (case parent of
                                 None \<Rightarrow> name node
                               | Some p \<Rightarrow> str (ext_name (ext p)) @ ''.'' @ name node)) node;
          i = stripChromePrefix (str (ext_name (ext n1)));
          n2 = set_pageHref (Some (replaceAllChar CHR ''.'' CHR ''_'' i)) n1
      in case traverseChildren st (case children node of Some cs \<Rightarrow> cs | None \<Rightarrow> []) n2 of
           (cs', hasOnlyNamespaces, st1) \<Rightarrow>
             (let n3 = (case children node of Some cs \<Rightarrow> set_children (Some cs') n2 | None \<Rightarrow> n2)
              in if \<not> hasOnlyNamespaces
                 then (n3, st1\<lparr>namespaces := mapSet i n3 (namespaces st1),
                                allByName := (allByName st1)(str (ext_name (ext n3)) \<mapsto> n3)\<rparr>)
                 else (n3, st1)))"
| "traverseChildren st [] parent = ([], True, st)"
| "traverseChildren st (c # cs) parent =
     (if kind c = Namespace then
        (case traverse st c (Some parent) of
           (c', st1) \<Rightarrow>
             (case traverseChildren st1 cs parent of
                (cs', hasOnlyNamespaces, st2) \<Rightarrow> (c' # cs', hasOnlyNamespaces, st2)))
      else
        (case traverseChildren st cs parent of
           (cs', hasOnlyNamespaces, st2) \<Rightarrow> (c # cs', False, st2)))"
  by pat_completeness auto
termination
proof (relation "measure (\<lambda>x. case x of
          Inl (st, node, parent) \<Rightarrow> 2 * nsize node
        | Inr (st, nodes, parent) \<Rightarrow> 2 * sum_list (map nsize nodes) + 1)",
      goal_cases)
  case 1
  then show ?case by simp
next
  case (2 st node parent n1 i n2)
  then show ?case by (auto simp: nsize_sel[of node] split: option.splits)
qed simp_all

declare traverse.simps [simp del]

text \<open>
  The loop over the top-level children of the project, from an empty state.
\<close>

fun findNamespaceRootsLoop :: "state \<Rightarrow> node list \<Rightarrow> state" where
  "findNamespaceRootsLoop st [] = st"
| "findNamespaceRootsLoop st (c # cs) =
     (if kind c = Namespace then findNamespaceRootsLoop (snd (traverse st c None)) cs
      else findNamespaceRootsLoop st cs)"

definition emptyState :: "state" where
  "emptyState = \<lparr>namespaces = [], pendingReferences = [], indexForReferences = Map.empty,
                  allByName = Map.empty\<rparr>"

definition findNamespaceRoots :: "node list \<Rightarrow> state" where
  "findNamespaceRoots projectChildren = findNamespaceRootsLoop emptyState projectChildren"

text \<open>
  \<^verbatim>\<open>run\<close>, up to the end of its first loop: the namespace roots are located and each is
  walked as its own page. The result pairs every page key with its walked root. (The two
  loops that follow rewrite hrefs and comments through the references the indices hold;
  they are not part of the model.)
\<close>

fun walkRoots :: "(string \<Rightarrow> jsonValue option) \<Rightarrow> state \<Rightarrow> (string \<times> node) list
    \<Rightarrow> error + ((string \<times> node) list \<times> state)" where
  "walkRoots JSON_parse st [] = Inr ([], st)"
| "walkRoots JSON_parse st ((k, namespace) # rest) =
     (case walk JSON_parse st namespace None namespace of
        Inl e \<Rightarrow> Inl e
      | Inr (namespace', st1) \<Rightarrow>
          (case walkRoots JSON_parse st1 rest of
             Inl e \<Rightarrow> Inl e
           | Inr (rest', st2) \<Rightarrow> Inr ((k, namespace') # rest', st2)))"

definition runWalks :: "(string \<Rightarrow> jsonValue option) \<Rightarrow> node list
    \<Rightarrow> error + ((string \<times> node) list \<times> state)" where
  "runWalks JSON_parse projectChildren =
     (let st = findNamespaceRoots projectChildren in walkRoots JSON_parse st (namespaces st))"

section \<open>What a walk does to the indices\<close>










lemma nid_placeNode [simp]: "nid (placeNode node parent ns) = nid node"
  by (simp add: placeNode_def split: option.splits)




section \<open>The namespace locator: what it registers\<close>

definition kids :: "node \<Rightarrow> node list" where
  "kids n = (case children n of Some cs \<Rightarrow> cs | None \<Rightarrow> [])"

definition qualifiedName :: "node \<Rightarrow> node option \<Rightarrow> string" where
  "qualifiedName node parent =
     (case parent of None \<Rightarrow> name node | Some p \<Rightarrow> str (ext_name (ext p)) @ ''.'' @ name node)"

definition namedNode :: "node \<Rightarrow> node option \<Rightarrow> node" where
  "namedNode node parent =
     set_pageHref (Some (replaceAllChar CHR ''.'' CHR ''_'' (stripChromePrefix (qualifiedName node parent))))
       (set_name (Some (qualifiedName node parent)) node)"

definition withTraversedChildren :: "node \<Rightarrow> node list \<Rightarrow> node \<Rightarrow> node" where
  "withTraversedChildren node cs' n =
     (case children node of Some cs \<Rightarrow> set_children (Some cs') n | None \<Rightarrow> n)"

definition registerRoot :: "node \<Rightarrow> state \<Rightarrow> state" where
  "registerRoot n st =
     st\<lparr>namespaces := mapSet (stripChromePrefix (str (ext_name (ext n)))) n (namespaces st),
        allByName := (allByName st)(str (ext_name (ext n)) \<mapsto> n)\<rparr>"

lemma traverse_unfold:
  "traverse st node parent =
     (case traverseChildren st (kids node) (namedNode node parent) of
        (cs', hasOnlyNamespaces, st1) \<Rightarrow>
          (withTraversedChildren node cs' (namedNode node parent),
           if hasOnlyNamespaces then st1
           else registerRoot (withTraversedChildren node cs' (namedNode node parent)) st1))"
  unfolding traverse.simps[of st node parent] Let_def
  by (auto simp: kids_def namedNode_def qualifiedName_def withTraversedChildren_def registerRoot_def
      str_def split: prod.splits option.splits)

lemma traverse_fields:
  assumes "traverse st node parent = (n', st')"
  shows "nid n' = nid node" "name n' = name node" "kind n' = kind node"
    "ext_name (ext n') = Some (qualifiedName node parent)"
    "ext_pageHref (ext n') =
       Some (replaceAllChar CHR ''.'' CHR ''_'' (stripChromePrefix (qualifiedName node parent)))"
  using assms unfolding traverse_unfold
  by (auto simp: withTraversedChildren_def namedNode_def split: prod.splits option.splits)

lemma traverseChildren_flag:
  "traverseChildren st cs p = (cs', h, st') \<Longrightarrow>
   h = (\<forall>c \<in> set cs. kind c = Namespace) \<and> map kind cs' = map kind cs"
proof (induction cs arbitrary: st cs' h st')
  case Nil
  then show ?case by simp
next
  case (Cons c cs)
  show ?case
  proof (cases "kind c = Namespace")
    case True
    obtain c' st1 where t: "traverse st c (Some p) = (c', st1)" by (cases "traverse st c (Some p)")
    obtain cs1 h1 st2 where r: "traverseChildren st1 cs p = (cs1, h1, st2)"
      by (cases "traverseChildren st1 cs p")
    from Cons.prems True t r have "cs' = c' # cs1" "h = h1" by auto
    with Cons.IH[OF r] traverse_fields(3)[OF t] True show ?thesis by simp
  next
    case False
    obtain cs1 h1 st2 where r: "traverseChildren st cs p = (cs1, h1, st2)"
      by (cases "traverseChildren st cs p")
    from Cons.prems False r have "cs' = c # cs1" "h = False" by auto
    with Cons.IH[OF r] False show ?thesis by auto
  qed
qed



lemma mapSet_mem: "(k, v) \<in> set (mapSet k v al)"
  by (induction al) auto








text \<open>The scenario of the specification: \<open>alpha\<close> holds only \<open>alpha.beta\<close>, which holds
  the property \<open>gamma\<close>.\<close>

definition scenarioGamma :: "node" where
  "scenarioGamma = Node 3 ''gamma'' Property None None None None False noExt"

definition scenarioBeta :: "node" where
  "scenarioBeta = Node 2 ''beta'' Namespace (Some [scenarioGamma]) None None None False noExt"

definition scenarioAlpha :: "node" where
  "scenarioAlpha = Node 1 ''alpha'' Namespace (Some [scenarioBeta]) None None None False noExt"

lemma scenario_roots:
  "map fst (namespaces (findNamespaceRoots [scenarioAlpha])) = [''alpha.beta'']"
  by code_simp



section \<open>What a walk leaves of a node\<close>

text \<open>
  The blocks of the walk write the bolted-on fields, the comment, and the emptied children
  and signatures; the id, name, kind, qualified name and page of the node stay as they
  were placed.
\<close>

definition sameIdentity :: "node \<Rightarrow> node \<Rightarrow> bool" where
  "sameIdentity a b =
     (nid a = nid b \<and> name a = name b \<and> kind a = kind b \<and> isOptional a = isOptional b
      \<and> ext_name (ext a) = ext_name (ext b) \<and> ext_pageHref (ext a) = ext_pageHref (ext b))"

lemma sameIdentity_refl [simp]: "sameIdentity a a"
  by (simp add: sameIdentity_def)

lemma sameIdentity_trans: "sameIdentity a b \<Longrightarrow> sameIdentity b c \<Longrightarrow> sameIdentity a c"
  by (simp add: sameIdentity_def)

lemma sameIdentity_mapDeclaration:
  "(\<And>m. sameIdentity (f m) m) \<Longrightarrow> sameIdentity (mapDeclaration f n) n"
proof (induction f n rule: mapDeclaration.induct)
  case (1 f i nm k ch d sg c opt e)
  show ?case by (simp add: sameIdentity_def)
qed (simp_all only: mapDeclaration.simps)

lemma sameIdentity_setters [simp]:
  "sameIdentity (set_children a n) n"
  "sameIdentity (set_signatures b n) n"
  "sameIdentity (set_comment c n) n"
  "sameIdentity (set_pageId d n) n"
  "sameIdentity (set_type e n) n"
  "sameIdentity (set_method f n) n"
  "sameIdentity (set_event g n) n"
  "sameIdentity (set_feature h n) n"
  "sameIdentity (set_enums i n) n"
  by (simp_all add: sameIdentity_def)

lemma sameIdentity_upgradeEventNode:
  "upgradeEventNode n = Inr (n', cs, shared) \<Longrightarrow> sameIdentity n' n"
  by (auto simp: upgradeEventNode_def sameIdentity_def Let_def
      split: option.splits ty.splits list.splits if_splits)

lemma sameIdentity_referencePhase:
  "referencePhase n st pfx = Inr (n1, st1, pfx1, cs, shared) \<Longrightarrow> sameIdentity n1 n"
  by (auto simp: referencePhase_def dest: sameIdentity_upgradeEventNode
      split: option.splits if_splits sum.splits)

lemma sameIdentity_eventNode [simp]: "sameIdentity (eventNode shared ps n) n"
  by (simp add: eventNode_def setMethodParameters_def split: option.splits)

lemma sameIdentity_detachChildren [simp]: "sameIdentity (detachChildren n) n"
  by (simp add: detachChildren_def sameIdentity_mapDeclaration split: option.splits list.splits)

lemma sameIdentity_propertiesNode [simp]: "sameIdentity (propertiesNode ps n) n"
  using sameIdentity_detachChildren[of n]
  by (simp add: propertiesNode_def sameIdentity_def)

lemma sameIdentity_methodNode [simp]: "sameIdentity (methodNode ps n) n"
proof -
  have "sameIdentity (mapDeclaration (set_signatures (Some [])) n) n"
    by (simp add: sameIdentity_mapDeclaration)
  then show ?thesis
    by (simp add: methodNode_def Let_def sameIdentity_def split: option.splits)
qed

lemma sameIdentity_hoistInnerProperties [simp]: "sameIdentity (hoistInnerProperties vs n) n"
  by (simp add: hoistInnerProperties_def Let_def)

lemma sameIdentity_finishNode:
  "finishNode P n parent ns pfx = Inr n' \<Longrightarrow> sameIdentity n' n"
  by (auto simp: finishNode_def Let_def sameIdentity_def case_sum_Inr_iff
      split: option.splits)

lemma walk_sameIdentity:
  assumes "walk P st node parent ns = Inr (n', st')"
  shows "sameIdentity n' (placeNode node parent ns)"
proof -
  from assms obtain n1 st1 pfx1 ec sh ec' props params' vs where
      rp: "referencePhase (placeNode node parent ns) (indexNode st (placeNode node parent ns) parent)
          (nodePrefix0 node) = Inr (n1, st1, pfx1, ec, sh)"
      and f: "finishNode P
          (hoistInnerProperties vs (methodNode params' (propertiesNode props (eventNode sh ec' n1))))
          parent ns
          (if callSignatures (propertiesNode props (eventNode sh ec' n1)) = [] then pfx1
           else ''method'')
        = Inr n'"
      unfolding walk_Inr_iff by blast
  have "sameIdentity
      (hoistInnerProperties vs (methodNode params' (propertiesNode props (eventNode sh ec' n1)))) n1"
    by (meson sameIdentity_trans sameIdentity_hoistInnerProperties sameIdentity_methodNode
        sameIdentity_propertiesNode sameIdentity_eventNode)
  with sameIdentity_finishNode[OF f] sameIdentity_referencePhase[OF rp] show ?thesis
    by (blast intro: sameIdentity_trans)
qed

lemma placeNode_fields:
  "nid (placeNode node parent ns) = nid node"
  "name (placeNode node parent ns) = name node"
  "kind (placeNode node parent ns) = kind node"
  "ext_pageHref (ext (placeNode node (Some p) ns)) = ext_pageHref (ext ns)"
  "ext_name (ext (placeNode node (Some p) ns)) = Some (str (ext_name (ext p)) @ ''.'' @ name node)"
  "placeNode node None ns = node"
  by (simp_all add: placeNode_def split: option.splits)

lemma walk_pageId:
  assumes "walk P st node (Some p) ns = Inr (n', st')"
  shows "\<exists>i. ext_pageId (ext n') = Some i \<and> i \<noteq> []"
proof -
  from assms obtain n pfx where "finishNode P n (Some p) ns pfx = Inr n'"
    unfolding walk_Inr_iff by blast
  then show ?thesis
    by (auto simp: finishNode_def Let_def case_sum_Inr_iff split: option.splits)
qed

section \<open>Page keys and registration\<close>

lemma stripChromePrefix_prefix: "stripChromePrefix (''chrome.'' @ s) = s"
  by (simp add: stripChromePrefix_def startsWith_def)

lemma stripChromePrefix_other: "\<not> startsWith s ''chrome.'' \<Longrightarrow> stripChromePrefix s = s"
  by (simp add: stripChromePrefix_def)

lemma traverse_registers:
  assumes "traverse st node parent = (n', st')" and "\<exists>c \<in> set (kids node). kind c \<noteq> Namespace"
  shows "(stripChromePrefix (qualifiedName node parent), n') \<in> set (namespaces st')"
    and "allByName st' (qualifiedName node parent) = Some n'"
proof -
  obtain cs' h st1 where r: "traverseChildren st (kids node) (namedNode node parent) = (cs', h, st1)"
    by (cases "traverseChildren st (kids node) (namedNode node parent)")
  from traverseChildren_flag[OF r] assms(2) have h: "\<not> h" by blast
  from assms(1) r h have n': "n' = withTraversedChildren node cs' (namedNode node parent)"
    and st': "st' = registerRoot n' st1"
    by (auto simp: traverse_unfold)
  from traverse_fields(4)[OF assms(1)] have nm: "str (ext_name (ext n')) = qualifiedName node parent"
    by (simp add: str_def)
  show "(stripChromePrefix (qualifiedName node parent), n') \<in> set (namespaces st')"
    unfolding st' registerRoot_def nm by (simp add: mapSet_mem)
  show "allByName st' (qualifiedName node parent) = Some n'"
    unfolding st' registerRoot_def nm by simp
qed


section \<open>The claims about page roots, page keys and the id index\<close>



text \<open>
  C10. A namespace the locator reaches gets its dotted qualified name; its page key is that
  name without one leading \<^verbatim>\<open>chrome.\<close>, under which it is registered when it is a page root;
  its page href is the key with every dot turned into an underscore. A node walked with a
  parent gets the page href of its page root, unchanged.
\<close>

theorem page_key_and_href:
  "(traverse st node parent = (n', st') \<longrightarrow>
       ext_name (ext n') = Some (qualifiedName node parent)
     \<and> ext_pageHref (ext n') =
         Some (replaceAllChar CHR ''.'' CHR ''_'' (stripChromePrefix (qualifiedName node parent)))
     \<and> ((\<exists>c \<in> set (kids node). kind c \<noteq> Namespace) \<longrightarrow>
          (stripChromePrefix (qualifiedName node parent), n') \<in> set (namespaces st')))
   \<and> stripChromePrefix (''chrome.'' @ s) = s
   \<and> (\<not> startsWith s ''chrome.'' \<longrightarrow> stripChromePrefix s = s)
   \<and> (walk JSON_parse st2 node2 (Some p) namespace = Inr (n2', st2') \<longrightarrow>
        ext_pageHref (ext n2') = ext_pageHref (ext namespace))"
proof (intro conjI impI)
  assume t: "traverse st node parent = (n', st')"
  show "ext_name (ext n') = Some (qualifiedName node parent)"
    by (rule traverse_fields(4)[OF t])
  show "ext_pageHref (ext n') =
         Some (replaceAllChar CHR ''.'' CHR ''_'' (stripChromePrefix (qualifiedName node parent)))"
    by (rule traverse_fields(5)[OF t])
  assume "\<exists>c \<in> set (kids node). kind c \<noteq> Namespace"
  from traverse_registers(1)[OF t this]
  show "(stripChromePrefix (qualifiedName node parent), n') \<in> set (namespaces st')" .
next
  show "stripChromePrefix (''chrome.'' @ s) = s" by (rule stripChromePrefix_prefix)
next
  assume "\<not> startsWith s ''chrome.''"
  then show "stripChromePrefix s = s" by (rule stripChromePrefix_other)
next
  assume "walk JSON_parse st2 node2 (Some p) namespace = Inr (n2', st2')"
  from walk_sameIdentity[OF this]
  show "ext_pageHref (ext n2') = ext_pageHref (ext namespace)"
    by (simp add: sameIdentity_def placeNode_fields(4))
qed

text \<open>A project whose namespaces sit under \<open>chrome\<close>, one of them nested.\<close>

definition chromeTabs :: "node" where
  "chromeTabs = Node 11 ''tabs'' Namespace
     (Some [Node 12 ''onc'' Namespace
              (Some [Node 13 ''TAB_ID_NONE'' Variable None None None None False noExt])
              None None None False noExt,
            Node 14 ''MAX'' Variable None None None None False noExt])
     None None None False noExt"

definition chromeRoot :: "node" where
  "chromeRoot = Node 10 ''chrome'' Namespace (Some [chromeTabs]) None None None False noExt"

definition chromeMax :: "node" where
  "chromeMax = Node 14 ''MAX'' Variable None None None None False noExt"

definition tabsRoot :: "node" where
  "tabsRoot = fst (traverse emptyState chromeTabs (Some (namedNode chromeRoot None)))"

theorem page_key_and_href_witness:
  "ext_name (ext tabsRoot) = Some ''chrome.tabs''
   \<and> ext_pageHref (ext tabsRoot) = Some ''tabs''
   \<and> (''tabs'', tabsRoot)
        \<in> set (namespaces (snd (traverse emptyState chromeTabs (Some (namedNode chromeRoot None)))))
   \<and> \<not> startsWith ''tabs.chrome.x'' ''chrome.''
   \<and> stripChromePrefix ''tabs.chrome.x'' = ''tabs.chrome.x''
   \<and> (case walk parsePlainStringLiteral emptyState chromeMax (Some tabsRoot) tabsRoot of
         Inr (n, s) \<Rightarrow> ext_pageHref (ext n) = Some ''tabs''
       | Inl e \<Rightarrow> False)
   \<and> map (\<lambda>kr. (fst kr, ext_name (ext (snd kr)), ext_pageHref (ext (snd kr))))
         (namespaces (findNamespaceRoots [chromeRoot]))
       = [(''tabs.onc'', Some ''chrome.tabs.onc'', Some ''tabs_onc''),
          (''tabs'', Some ''chrome.tabs'', Some ''tabs'')]"
proof -
  let ?p = "Some (namedNode chromeRoot None)"
  have t: "traverse emptyState chromeTabs ?p
      = (tabsRoot, snd (traverse emptyState chromeTabs ?p))"
    by (simp add: tabsRoot_def)
  have q: "qualifiedName chromeTabs ?p = ''chrome.tabs''" by code_simp
  have h: "replaceAllChar CHR ''.'' CHR ''_'' (stripChromePrefix ''chrome.tabs'') = ''tabs''"
    by code_simp
  have sk: "stripChromePrefix ''chrome.tabs'' = ''tabs''" by code_simp
  have c: "\<exists>c \<in> set (kids chromeTabs). kind c \<noteq> Namespace"
    by (simp add: kids_def chromeTabs_def)
  have s: "\<not> startsWith ''tabs.chrome.x'' ''chrome.''" by (simp add: startsWith_def)
  have wr: "(case walk parsePlainStringLiteral emptyState chromeMax (Some tabsRoot) tabsRoot of
         Inr (n, s) \<Rightarrow> True | Inl e \<Rightarrow> False)"
    by code_simp
  then obtain n2 s2 where
    w: "walk parsePlainStringLiteral emptyState chromeMax (Some tabsRoot) tabsRoot = Inr (n2, s2)"
    by (cases "walk parsePlainStringLiteral emptyState chromeMax (Some tabsRoot) tabsRoot") auto
  note T = page_key_and_href[of emptyState chromeTabs ?p tabsRoot
      "snd (traverse emptyState chromeTabs ?p)" "''tabs.chrome.x''"
      parsePlainStringLiteral emptyState chromeMax tabsRoot tabsRoot n2 s2]
  from T t q have 1: "ext_name (ext tabsRoot) = Some ''chrome.tabs''" by simp
  from T t q h have 2: "ext_pageHref (ext tabsRoot) = Some ''tabs''" by simp
  from T t q sk c have 3: "(''tabs'', tabsRoot)
        \<in> set (namespaces (snd (traverse emptyState chromeTabs ?p)))" by simp
  from T s have 4: "stripChromePrefix ''tabs.chrome.x'' = ''tabs.chrome.x''" by blast
  from T w have "ext_pageHref (ext n2) = ext_pageHref (ext tabsRoot)" by blast
  with 2 w have 5: "(case walk parsePlainStringLiteral emptyState chromeMax (Some tabsRoot) tabsRoot of
         Inr (n, s) \<Rightarrow> ext_pageHref (ext n) = Some ''tabs''
       | Inl e \<Rightarrow> False)" by simp
  have 6: "map (\<lambda>kr. (fst kr, ext_name (ext (snd kr)), ext_pageHref (ext (snd kr))))
         (namespaces (findNamespaceRoots [chromeRoot]))
       = [(''tabs.onc'', Some ''chrome.tabs.onc'', Some ''tabs_onc''),
          (''tabs'', Some ''chrome.tabs'', Some ''tabs'')]"
    by code_simp
  from 1 2 3 s 4 5 6 show ?thesis by blast
qed




section \<open>The event upgrader: when it fails, and the declarative form\<close>

text \<open>Whether the upgrader fails, and how, is decided by the type of the node alone.\<close>

lemma upgradeEventNode_error_ntype:
  "ntype a = ntype b \<Longrightarrow> upgradeEventNode a = Inl e \<Longrightarrow> upgradeEventNode b = Inl e"
  by (auto simp: upgradeEventNode_def Let_def
      split: option.splits ty.splits list.splits if_splits)

lemma upgradeEventNode_fails_iff:
  assumes "ntype node = Some (Reference rid rname targs)"
  shows "(\<exists>e. upgradeEventNode node = Inl e) \<longleftrightarrow>
         (targs = None \<or> targs = Some []
          \<or> (rname \<noteq> ''CustomChromeEvent''
              \<and> (\<exists>iname more. targs = Some (Intrinsic iname # more)
                    \<and> (iname \<noteq> ''never'' \<or> length more < 2))))"
proof (cases targs)
  case None
  with assms show ?thesis by (simp add: upgradeEventNode_def)
next
  case (Some as)
  show ?thesis
  proof (cases as)
    case Nil
    with Some assms show ?thesis by (simp add: upgradeEventNode_def)
  next
    case (Cons a more)
    show ?thesis
    proof (cases "rname = ''CustomChromeEvent''")
      case True
      with Some Cons assms show ?thesis by (simp add: upgradeEventNode_def Let_def)
    next
      case False
      show ?thesis
      proof (cases "\<exists>iname. a = Intrinsic iname")
        case True
        then obtain iname where a: "a = Intrinsic iname" by blast
        show ?thesis
        proof (cases "iname = ''never''")
          case n: True
          have "length more < 2 \<longleftrightarrow> (\<forall>a1 a2 rest. more \<noteq> a1 # a2 # rest)"
            by (cases more; simp; cases "tl more"; simp; cases more; auto)
          with Some Cons assms False a n show ?thesis
            by (auto simp: upgradeEventNode_def Let_def split: list.splits)
        next
          case n: False
          with Some Cons assms False a show ?thesis by (simp add: upgradeEventNode_def)
        qed
      next
        case na: False
        with Some Cons assms False show ?thesis
          by (cases a) (simp_all add: upgradeEventNode_def Let_def)
      qed
    qed
  qed
qed

lemma ntype_placeNode [simp]: "ntype (placeNode node parent ns) = ntype node"
  by (simp add: placeNode_def split: option.splits)

lemma walk_event_error:
  assumes t: "ntype node = Some (Reference rid rname targs)"
    and r: "rname \<in> set chromeEventRefTypes"
    and u: "upgradeEventNode node = Inl e"
  shows "walk P st node parent ns = Inl e"
proof -
  let ?n0 = "placeNode node parent ns"
  have "upgradeEventNode ?n0 = Inl e"
    by (rule upgradeEventNode_error_ntype[OF _ u]) simp
  with t r have "referencePhase ?n0 (indexNode st ?n0 parent) (nodePrefix0 node) = Inl e"
    by (simp add: referencePhase_def referenceName_def)
  then show ?thesis
    unfolding walk.simps[of P st node parent ns] Let_def by simp
qed

text \<open>An event whose first type argument is the intrinsic \<open>string\<close>.\<close>

definition stringEvent :: "string \<Rightarrow> node" where
  "stringEvent rname = Node 7 ''onFoo'' Property None
     (Some (Reference None rname (Some [Intrinsic ''string'']))) None None False noExt"

definition eventNamespace :: "node \<Rightarrow> node" where
  "eventNamespace ev = Node 6 ''foo'' Namespace (Some [ev]) None None None False noExt"

text \<open>
  C3, as stated, fails: a reference to \<^verbatim>\<open>CustomChromeEvent\<close> whose first type argument is the
  intrinsic \<open>string\<close> is upgraded without an error (the branch for \<^verbatim>\<open>CustomChromeEvent\<close>
  comes before the test for an intrinsic argument), and the run over a namespace with such
  an event returns.
\<close>

theorem custom_event_intrinsic_argument_counterexample:
  "(case upgradeEventNode (stringEvent ''CustomChromeEvent'') of
      Inr (n, ps, shared) \<Rightarrow> ps = [] \<and> ext_event (ext n) = Some (EventInfo None None)
    | Inl e \<Rightarrow> False)
   \<and> (case runWalks parsePlainStringLiteral [eventNamespace (stringEvent ''CustomChromeEvent'')] of
        Inr (roots, st) \<Rightarrow> map fst roots = [''foo'']
      | Inl e \<Rightarrow> False)"
  by code_simp

text \<open>
  C3, amended. On a node whose type is a reference, the event upgrader fails exactly when
  the reference has no type argument, or the reference is not named \<^verbatim>\<open>CustomChromeEvent\<close> and
  its first type argument is an intrinsic type that is not \<open>never\<close>, or is \<open>never\<close> with fewer
  than two arguments after it. When the reference names an event type, the error is the
  result of the walk of the node, of the walk of a list that starts with it, and of the walk
  of the roots that start with it.
\<close>

theorem event_upgrade_fails_exactly:
  assumes "ntype node = Some (Reference rid rname targs)"
  shows "((\<exists>e. upgradeEventNode node = Inl e) \<longleftrightarrow>
           (targs = None \<or> targs = Some []
            \<or> (rname \<noteq> ''CustomChromeEvent''
                \<and> (\<exists>iname more. targs = Some (Intrinsic iname # more)
                      \<and> (iname \<noteq> ''never'' \<or> length more < 2)))))
       \<and> (rname \<in> set chromeEventRefTypes \<longrightarrow> upgradeEventNode node = Inl e \<longrightarrow>
            walk P st node parent ns = Inl e
          \<and> walkAll P st (node # cs) p ns = Inl e
          \<and> walkRoots P st ((k, node) # rest) = Inl e)"
proof (intro conjI impI)
  show "(\<exists>e. upgradeEventNode node = Inl e) \<longleftrightarrow>
           (targs = None \<or> targs = Some []
            \<or> (rname \<noteq> ''CustomChromeEvent''
                \<and> (\<exists>iname more. targs = Some (Intrinsic iname # more)
                      \<and> (iname \<noteq> ''never'' \<or> length more < 2))))"
    by (rule upgradeEventNode_fails_iff[OF assms])
next
  assume r: "rname \<in> set chromeEventRefTypes" and u: "upgradeEventNode node = Inl e"
  show "walk P st node parent ns = Inl e" by (rule walk_event_error[OF assms r u])
  show "walkAll P st (node # cs) p ns = Inl e"
    by (simp add: walk_event_error[OF assms r u])
  show "walkRoots P st ((k, node) # rest) = Inl e"
    by (simp add: walk_event_error[OF assms r u])
qed

theorem event_upgrade_fails_exactly_witness:
  "(\<exists>e. upgradeEventNode (stringEvent ''events.Event'') = Inl e)
   \<and> walk parsePlainStringLiteral emptyState (stringEvent ''events.Event'') None
        (stringEvent ''events.Event'') = Inl UnexpectedFirstArgument
   \<and> \<not> (\<exists>e. upgradeEventNode (stringEvent ''CustomChromeEvent'') = Inl e)
   \<and> (case runWalks parsePlainStringLiteral [eventNamespace (stringEvent ''events.Event'')] of
        Inr r \<Rightarrow> False
      | Inl e \<Rightarrow> e = UnexpectedFirstArgument)"
proof -
  have t: "ntype (stringEvent rn) = Some (Reference None rn (Some [Intrinsic ''string'']))" for rn
    by (simp add: stringEvent_def)
  note T = event_upgrade_fails_exactly[OF t, of "''events.Event''" UnexpectedFirstArgument
      parsePlainStringLiteral emptyState None "stringEvent ''events.Event''" "[]"
      "stringEvent ''events.Event''" "''k''" "[]"]
  note C = event_upgrade_fails_exactly[OF t, of "''CustomChromeEvent''" UnexpectedFirstArgument
      parsePlainStringLiteral emptyState None "stringEvent ''events.Event''" "[]"
      "stringEvent ''events.Event''" "''k''" "[]"]
  have u: "upgradeEventNode (stringEvent ''events.Event'') = Inl UnexpectedFirstArgument"
    by (simp add: upgradeEventNode_def stringEvent_def)
  have m: "''events.Event'' \<in> set chromeEventRefTypes" by (simp add: chromeEventRefTypes_def)
  from T have 1: "\<exists>e. upgradeEventNode (stringEvent ''events.Event'') = Inl e" by simp
  from T u m have 2: "walk parsePlainStringLiteral emptyState (stringEvent ''events.Event'') None
        (stringEvent ''events.Event'') = Inl UnexpectedFirstArgument" by blast
  from C have 3: "\<not> (\<exists>e. upgradeEventNode (stringEvent ''CustomChromeEvent'') = Inl e)" by simp
  have 4: "(case runWalks parsePlainStringLiteral [eventNamespace (stringEvent ''events.Event'')] of
        Inr r \<Rightarrow> False
      | Inl e \<Rightarrow> e = UnexpectedFirstArgument)"
    by code_simp
  from 1 2 3 4 show ?thesis by blast
qed






section \<open>The comment and the return of a node with call signatures\<close>


text \<open>The comment of the first signature of a list that has one.\<close>

definition firstComment :: "signature list \<Rightarrow> comment option" where
  "firstComment ss =
     (case filter (\<lambda>s. sigComment s \<noteq> None) ss of [] \<Rightarrow> None | s # rest \<Rightarrow> sigComment s)"


lemma firstComment_Nil [simp]: "firstComment [] = None"
  by (simp add: firstComment_def)











section \<open>What a walk leaves of the declaration, the type and the comment\<close>




text \<open>The fields the signature block reads: the signatures and the comment of the declaration.\<close>

definition sameDeclaration :: "node \<Rightarrow> node \<Rightarrow> bool" where
  "sameDeclaration a b =
     (signatures (declarationWith a) = signatures (declarationWith b)
      \<and> comment (declarationWith a) = comment (declarationWith b))"

definition sameTop :: "node \<Rightarrow> node \<Rightarrow> bool" where
  "sameTop a b = (ntype a = ntype b \<and> signatures a = signatures b \<and> comment a = comment b)"

lemma sameDeclaration_refl [simp]: "sameDeclaration a a"
  by (simp add: sameDeclaration_def)


lemma sameTop_refl [simp]: "sameTop a a"
  by (simp add: sameTop_def)



lemma sameTop_setters [simp]:
  "sameTop (set_children a n) n"
  "sameTop (set_name b n) n"
  "sameTop (set_pageHref c n) n"
  "sameTop (set_pageId d n) n"
  "sameTop (set_type e n) n"
  "sameTop (set_method f n) n"
  "sameTop (set_event g n) n"
  "sameTop (set_feature h n) n"
  "sameTop (set_enums i n) n"
  by (simp_all add: sameTop_def)












lemma hoistInnerProperties_fields [simp]:
  "ntype (hoistInnerProperties vs n) = ntype n"
  "comment (hoistInnerProperties vs n) = comment n"
  "ext_method (ext (hoistInnerProperties vs n)) = ext_method (ext n)"
  by (simp_all add: hoistInnerProperties_def Let_def)








section \<open>The claim about the comment and the return of a method\<close>







end
